theory Spec2Isabelle
  imports Main "HOL-Library.AList"
begin

section \<open>The intermediate representation (src/parser/mips\_parser.py)\<close>

text \<open>
  The two dataclasses of the parser module. Python compares dataclass instances field
  by field, which is the equality of HOL records. An element of the IR sequence is
  either an Instruction or a Label; \<open>isinstance\<close> is the case distinction on
  \<open>elem\<close>.
\<close>

record instruction =
  opcode :: string
  args :: "string list"
  comment :: "string option"
  original_text :: "string option"

record label =
  name :: string
  instruction :: "instruction option"

datatype elem = Instr instruction | Lbl label

section \<open>Python operations that can raise\<close>

datatype error = IndexError | AttributeError

text \<open>\<open>xs[i]\<close> for a non-negative constant \<open>i\<close>: IndexError when out of range.\<close>

definition py_index :: "'a list \<Rightarrow> nat \<Rightarrow> error + 'a" where
  "py_index xs i = (if i < length xs then Inr (xs ! i) else Inl IndexError)"

text \<open>
  What an f-string prints for a field of type \<open>Optional[str]\<close>: the text itself,
  or the four letters \<open>None\<close>.
\<close>

definition py_str :: "string option \<Rightarrow> string" where
  "py_str t = (case t of None \<Rightarrow> ''None'' | Some s \<Rightarrow> s)"

text \<open>Sequencing of two computations whose results are concatenated.\<close>

definition appE :: "error + 'a list \<Rightarrow> error + 'a list \<Rightarrow> error + 'a list" where
  "appE a b =
     (case a of Inl e \<Rightarrow> Inl e
      | Inr xs \<Rightarrow> (case b of Inl e \<Rightarrow> Inl e | Inr ys \<Rightarrow> Inr (xs @ ys)))"

section \<open>The peephole optimizer (src/optimizer/peephole.py)\<close>

subsection \<open>Matchers\<close>

text \<open>
  Each matcher receives the suffix \<open>instructions[i:]\<close> and returns the number of
  elements matched. The conjunctions of the source are evaluated left to right and stop
  at the first false conjunct, so an operand is read only when every conjunct before it
  held.
\<close>

fun match_add_zero :: "elem list \<Rightarrow> error + nat" where
  "match_add_zero [] = Inr 0"
| "match_add_zero (Lbl l # rest) = Inr 0"
| "match_add_zero (Instr instr # rest) =
     (if opcode instr = ''add'' \<and> length (args instr) = 3 then
        (case py_index (args instr) 2 of
           Inl e \<Rightarrow> Inl e
         | Inr a2 \<Rightarrow> if a2 = ''$zero'' then Inr 1 else Inr 0)
      else Inr 0)"

fun match_redundant_move :: "elem list \<Rightarrow> error + nat" where
  "match_redundant_move (Instr first # Instr second # rest) =
     (if opcode first = ''move'' \<and> opcode second = ''add'' \<and> length (args second) = 3 then
        (case py_index (args second) 2 of
           Inl e \<Rightarrow> Inl e
         | Inr s2 \<Rightarrow>
             if s2 = ''$zero'' then
               (case py_index (args first) 0 of
                  Inl e \<Rightarrow> Inl e
                | Inr f0 \<Rightarrow>
                    (case py_index (args second) 1 of
                       Inl e \<Rightarrow> Inl e
                     | Inr s1 \<Rightarrow> if f0 = s1 then Inr 2 else Inr 0))
             else Inr 0)
      else Inr 0)"
| "match_redundant_move other = Inr 0"

fun match_redundant_load_store :: "elem list \<Rightarrow> error + nat" where
  "match_redundant_load_store (Instr store # Instr load # rest) =
     (if opcode store = ''sw'' \<and> opcode load = ''lw'' then
        (case py_index (args store) 1 of
           Inl e \<Rightarrow> Inl e
         | Inr s1 \<Rightarrow>
             (case py_index (args load) 1 of
                Inl e \<Rightarrow> Inl e
              | Inr l1 \<Rightarrow> if s1 = l1 then Inr 2 else Inr 0))
      else Inr 0)"
| "match_redundant_load_store other = Inr 0"

subsection \<open>Transformers\<close>

text \<open>
  A transformer receives the matched window \<open>instructions[i:i + match_length]\<close>.
  The keyword arguments of the constructor are evaluated in the order written: the
  operands first, then the comment. Reading \<open>.args\<close> of a Label raises
  AttributeError. The new Instruction gets the default \<open>original_text = None\<close>.
\<close>

fun transform_add_zero :: "elem list \<Rightarrow> error + elem list" where
  "transform_add_zero [] = Inl IndexError"
| "transform_add_zero (Lbl l # rest) = Inl AttributeError"
| "transform_add_zero (Instr instr # rest) =
     (case py_index (args instr) 0 of
        Inl e \<Rightarrow> Inl e
      | Inr a0 \<Rightarrow>
          (case py_index (args instr) 1 of
             Inl e \<Rightarrow> Inl e
           | Inr a1 \<Rightarrow>
               Inr [Instr \<lparr>opcode = ''move'', args = [a0, a1],
                    comment = Some (''Optimized from: '' @ py_str (original_text instr)),
                    original_text = None\<rparr>]))"

fun transform_redundant_move :: "elem list \<Rightarrow> error + elem list" where
  "transform_redundant_move (e0 # Instr i1 # rest) =
     (case py_index (args i1) 0 of
        Inl e \<Rightarrow> Inl e
      | Inr a0 \<Rightarrow>
          (case e0 of
             Lbl l \<Rightarrow> Inl AttributeError
           | Instr i0 \<Rightarrow>
               (case py_index (args i0) 1 of
                  Inl e \<Rightarrow> Inl e
                | Inr a1 \<Rightarrow>
                    Inr [Instr \<lparr>opcode = ''move'', args = [a0, a1],
                         comment = Some (''Optimized from: '' @ py_str (original_text i0)
                                         @ '' and '' @ py_str (original_text i1)),
                         original_text = None\<rparr>])))"
| "transform_redundant_move (e0 # Lbl l # rest) = Inl AttributeError"
| "transform_redundant_move other = Inl IndexError"

fun transform_redundant_load_store :: "elem list \<Rightarrow> error + elem list" where
  "transform_redundant_load_store (store # load # rest) =
     (case load of
        Lbl l \<Rightarrow> Inl AttributeError
      | Instr ld \<Rightarrow>
          (case py_index (args ld) 0 of
             Inl e \<Rightarrow> Inl e
           | Inr a0 \<Rightarrow>
               (case store of
                  Lbl l \<Rightarrow> Inl AttributeError
                | Instr st \<Rightarrow>
                    (case py_index (args st) 0 of
                       Inl e \<Rightarrow> Inl e
                     | Inr a1 \<Rightarrow>
                         Inr [store,
                              Instr \<lparr>opcode = ''move'', args = [a0, a1],
                                comment = Some (''Optimized from: '' @ py_str (original_text ld)),
                                original_text = None\<rparr>]))))"
| "transform_redundant_load_store other = Inl IndexError"

subsection \<open>The pattern registry and the single pass\<close>

type_synonym pattern = "(elem list \<Rightarrow> error + nat) \<times> (elem list \<Rightarrow> error + elem list)"

definition patterns :: "pattern list" where
  "patterns =
     [(match_add_zero, transform_add_zero),
      (match_redundant_move, transform_redundant_move),
      (match_redundant_load_store, transform_redundant_load_store)]"

text \<open>
  The inner \<open>for\<close> loop at one cursor position, on the suffix \<open>instructions[i:]\<close>:
  the first pattern whose matcher returns a positive length is applied to the window
  \<open>instructions[i:i + match_length]\<close>; the result is the replacement and the length,
  or \<open>None\<close> when the loop ends with \<open>matched = False\<close>.
\<close>

fun try_patterns :: "pattern list \<Rightarrow> elem list \<Rightarrow> error + (elem list \<times> nat) option" where
  "try_patterns [] suffix = Inr None"
| "try_patterns ((match_fn, transform_fn) # ps) suffix =
     (case match_fn suffix of
        Inl e \<Rightarrow> Inl e
      | Inr match_length \<Rightarrow>
          if match_length > 0 then
            (case transform_fn (take match_length suffix) of
               Inl e \<Rightarrow> Inl e
             | Inr transformed \<Rightarrow> Inr (Some (transformed, match_length)))
          else try_patterns ps suffix)"

text \<open>The \<open>while\<close> loop: cursor \<open>i\<close> and the output list built so far.\<close>

function optimize_loop :: "elem list \<Rightarrow> nat \<Rightarrow> elem list \<Rightarrow> error + elem list" where
  "optimize_loop instrs i optimized =
     (if i < length instrs then
        (case try_patterns patterns (drop i instrs) of
           Inl e \<Rightarrow> Inl e
         | Inr (Some (transformed, match_length)) \<Rightarrow>
             optimize_loop instrs (i + match_length) (optimized @ transformed)
         | Inr None \<Rightarrow> optimize_loop instrs (i + 1) (optimized @ [instrs ! i]))
      else Inr optimized)"
  by pat_completeness auto
termination
proof -
  have pos: "0 < n" if "try_patterns ps suffix = Inr (Some (t, n))" for ps suffix t n
    using that
    by (induction ps suffix rule: try_patterns.induct) (auto split: sum.splits if_splits)
  show ?thesis
    by (relation "measure (\<lambda>(instrs, i, optimized). length instrs - i)")
       (auto dest: pos)
qed

definition optimize :: "elem list \<Rightarrow> error + elem list" where
  "optimize instrs = optimize_loop instrs 0 []"

section \<open>The parser (src/parser/mips\_parser.py)\<close>

subsection \<open>Characters, trimming and splitting\<close>

text \<open>
  A Python \<open>str\<close> is modelled as a list of 8-bit characters, every character standing
  for the code point of the same number; code points above 255 are outside the model.
  \<open>is_space\<close> is the whitespace of \<open>str.strip\<close>, \<open>str.isspace\<close> and of the regular
  expression class \<open>\s\<close> on these code points; \<open>is_linebreak\<close> are the line
  boundaries of \<open>str.splitlines\<close>. The other classes are the bracket expressions of
  the three regular expressions.
\<close>

definition is_space :: "char \<Rightarrow> bool" where
  "is_space c =
     (let n = (of_char c :: nat)
      in (9 \<le> n \<and> n \<le> 13) \<or> (28 \<le> n \<and> n \<le> 32) \<or> n = 133 \<or> n = 160)"

definition is_linebreak :: "char \<Rightarrow> bool" where
  "is_linebreak c =
     (let n = (of_char c :: nat)
      in (10 \<le> n \<and> n \<le> 13) \<or> (28 \<le> n \<and> n \<le> 30) \<or> n = 133)"

definition is_upper :: "char \<Rightarrow> bool" where
  "is_upper c = (let n = (of_char c :: nat) in 65 \<le> n \<and> n \<le> 90)"

definition is_alpha :: "char \<Rightarrow> bool" where
  "is_alpha c =
     (let n = (of_char c :: nat) in (65 \<le> n \<and> n \<le> 90) \<or> (97 \<le> n \<and> n \<le> 122))"

definition is_ident_start :: "char \<Rightarrow> bool" where
  "is_ident_start c = (is_alpha c \<or> c = CHR ''_'')"

definition is_ident_char :: "char \<Rightarrow> bool" where
  "is_ident_char c =
     (let n = (of_char c :: nat) in is_alpha c \<or> (48 \<le> n \<and> n \<le> 57) \<or> c = CHR ''_'')"

text \<open>\<open>str.lower\<close> on one character: the upper-case letters of ASCII and of Latin-1.\<close>

definition lower :: "char \<Rightarrow> char" where
  "lower c =
     (let n = (of_char c :: nat)
      in if (65 \<le> n \<and> n \<le> 90) \<or> (192 \<le> n \<and> n \<le> 222 \<and> n \<noteq> 215)
         then char_of (n + 32) else c)"

definition lstrip :: "string \<Rightarrow> string" where
  "lstrip s = dropWhile is_space s"

definition rstrip :: "string \<Rightarrow> string" where
  "rstrip s = rev (dropWhile is_space (rev s))"

definition strip :: "string \<Rightarrow> string" where
  "strip s = rstrip (lstrip s)"

text \<open>
  \<open>str.splitlines()\<close>: the text is cut at every line boundary, \<open>\r\n\<close> counting as
  one, the boundaries are not kept, and no empty last line is produced after a final
  boundary. \<open>cur\<close> is the line read so far.
\<close>

fun splitlines_from :: "string \<Rightarrow> string \<Rightarrow> string list" where
  "splitlines_from cur [] = (if cur = [] then [] else [cur])"
| "splitlines_from cur (c # cs) =
     (if is_linebreak c then
        cur # splitlines_from []
                (if c = CHR 0x0D \<and> (case cs of [] \<Rightarrow> False | d # ds \<Rightarrow> d = CHR 0x0A)
                 then tl cs else cs)
      else splitlines_from (cur @ [c]) cs)"

definition splitlines :: "string \<Rightarrow> string list" where
  "splitlines text = splitlines_from [] text"

text \<open>\<open>s.split(sep)\<close> for a one-character separator: never the empty list.\<close>

fun split_on :: "char \<Rightarrow> string \<Rightarrow> string list" where
  "split_on sep [] = [[]]"
| "split_on sep (c # cs) =
     (if c = sep then [] # split_on sep cs
      else (case split_on sep cs of [] \<Rightarrow> [[c]] | p # ps \<Rightarrow> (c # p) # ps))"

subsection \<open>The three regular expressions\<close>

text \<open>
  The parser applies its regular expressions with \<open>match\<close> to one line produced by
  \<open>splitlines\<close>, or to the rest of such a line: a string without the character
  \<open>\n\<close>, on which \<open>.\<close> matches every character and \<open>$\<close> matches at the end only.
  On such strings the backtracking search of each expression has one first success,
  computed below.

  \<open>comment_pattern = ^\s*#.*$\<close>: after the longest run of whitespace comes \<open>#\<close>.
\<close>

definition comment_match :: "string \<Rightarrow> bool" where
  "comment_match line = (case lstrip line of [] \<Rightarrow> False | c # r \<Rightarrow> c = CHR ''#'')"

text \<open>
  \<open>label_pattern = ^\s*([a-zA-Z_][a-zA-Z0-9_]*):\s*(.*)$\<close>: the identifier is the
  longest run of identifier characters (a shorter one is followed by an identifier
  character, not by the colon); the second group starts after the whitespace that
  follows the colon. The result is \<open>label_match.groups()\<close>.
\<close>

definition label_match :: "string \<Rightarrow> (string \<times> string) option" where
  "label_match line =
     (case lstrip line of
        [] \<Rightarrow> None
      | c # r \<Rightarrow>
          if is_ident_start c then
            (case dropWhile is_ident_char r of
               [] \<Rightarrow> None
             | d # rest \<Rightarrow>
                 if d = CHR '':'' then Some (c # takeWhile is_ident_char r, lstrip rest)
                 else None)
          else None)"

text \<open>
  \<open>instruction_pattern = ^\s*([a-zA-Z]+)\s*([^#]*?)(?:\s*#\s*(.*))?$\<close>: the opcode
  is the longest run of letters after the leading whitespace, and whitespace is skipped
  after it. Without a \<open>#\<close> in what follows, the lazy second group has to reach the end
  of the string and the third group does not take part (\<open>None\<close>). With a \<open>#\<close>, the
  second group is the shortest string after which only whitespace precedes the first
  \<open>#\<close>, and the third group is what follows that \<open>#\<close> and the whitespace after it.
  The result is \<open>match.groups()\<close>, or \<open>None\<close> when there is no match.
\<close>

definition instruction_match :: "string \<Rightarrow> (string \<times> string \<times> string option) option" where
  "instruction_match line =
     (let s = lstrip line;
          opc = takeWhile is_alpha s;
          r = lstrip (dropWhile is_alpha s)
      in if opc = [] then None
         else (case dropWhile (\<lambda>c. c \<noteq> CHR ''#'') r of
                 [] \<Rightarrow> Some (opc, r, None)
               | h # cm \<Rightarrow>
                   Some (opc, rstrip (takeWhile (\<lambda>c. c \<noteq> CHR ''#'') r), Some (lstrip cm))))"

subsection \<open>Parsing\<close>

definition parse_instruction :: "string \<Rightarrow> instruction option" where
  "parse_instruction line =
     (case instruction_match line of
        None \<Rightarrow> None
      | Some (opc, args_str, cm) \<Rightarrow>
          Some \<lparr>opcode = map lower (strip opc),
                args = [strip arg. arg \<leftarrow> split_on (CHR '','') args_str, strip arg \<noteq> []],
                comment = (case cm of
                             None \<Rightarrow> None
                           | Some c \<Rightarrow> if c = [] then None else Some (strip c)),
                original_text = Some line\<rparr>)"

text \<open>
  The state of a \<open>MIPSParser\<close>: the name table (a dict, kept as an association list in
  insertion order) and the IR sequence.
\<close>

record parser =
  labels :: "(string \<times> label) list"
  instructions :: "elem list"

text \<open>
  One iteration of the loop of \<open>parse_text\<close>. The source appends the Label and then
  assigns its \<open>instruction\<close> field; the table and the sequence hold the same object, so
  both see the assignment, and the model builds the Label with the field already set.
\<close>

definition parse_line :: "parser \<Rightarrow> string \<Rightarrow> parser" where
  "parse_line st raw =
     (let line = strip raw
      in if line = [] \<or> comment_match line then st
         else (case label_match line of
                 Some (label_name, rest) \<Rightarrow>
                   (let parsed = (if strip rest \<noteq> [] then parse_instruction rest else None);
                        lbl = \<lparr>name = label_name, instruction = parsed\<rparr>;
                        st1 = st\<lparr>labels := AList.update label_name lbl (labels st),
                                 instructions := instructions st @ [Lbl lbl]\<rparr>
                    in (case parsed of
                          None \<Rightarrow> st1
                        | Some instr \<Rightarrow> st1\<lparr>instructions := instructions st1 @ [Instr instr]\<rparr>))
               | None \<Rightarrow>
                   (case parse_instruction line of
                      None \<Rightarrow> st
                    | Some instr \<Rightarrow> st\<lparr>instructions := instructions st @ [Instr instr]\<rparr>)))"

text \<open>
  \<open>parse_text\<close> clears both fields, runs the loop over the lines and returns the
  sequence; \<open>parse_state\<close> is the parser it leaves behind.
\<close>

definition parse_state :: "string \<Rightarrow> parser" where
  "parse_state text = foldl parse_line \<lparr>labels = [], instructions = []\<rparr> (splitlines text)"

definition parse_text :: "string \<Rightarrow> elem list" where
  "parse_text text = instructions (parse_state text)"

definition get_label :: "parser \<Rightarrow> string \<Rightarrow> label option" where
  "get_label st nm = map_of (labels st) nm"

section \<open>Notions used in the statements\<close>

text \<open>
  The shape the first pattern looks for: an \<open>add\<close> with exactly three operands, the
  third being the token \<open>$zero\<close>.
\<close>

definition add_zero_shape :: "instruction \<Rightarrow> bool" where
  "add_zero_shape a \<longleftrightarrow> opcode a = ''add'' \<and> length (args a) = 3 \<and> args a ! 2 = ''$zero''"

text \<open>The Instructions the three transformers construct.\<close>

definition add_zero_move :: "instruction \<Rightarrow> instruction" where
  "add_zero_move a =
     \<lparr>opcode = ''move'', args = [args a ! 0, args a ! 1],
      comment = Some (''Optimized from: '' @ py_str (original_text a)),
      original_text = None\<rparr>"

definition redundant_move_move :: "instruction \<Rightarrow> instruction \<Rightarrow> instruction" where
  "redundant_move_move m a =
     \<lparr>opcode = ''move'', args = [args a ! 0, args m ! 1],
      comment = Some (''Optimized from: '' @ py_str (original_text m)
                      @ '' and '' @ py_str (original_text a)),
      original_text = None\<rparr>"

definition load_store_move :: "instruction \<Rightarrow> instruction \<Rightarrow> instruction" where
  "load_store_move s l =
     \<lparr>opcode = ''move'', args = [args l ! 0, args s ! 0],
      comment = Some (''Optimized from: '' @ py_str (original_text l)),
      original_text = None\<rparr>"

text \<open>
  Neither two-element matcher, run on the window \<open>[x, y]\<close>, matches or raises: the
  cursor that stands on \<open>x\<close> does not consume \<open>y\<close>.
\<close>

definition no_pair :: "elem \<Rightarrow> elem \<Rightarrow> bool" where
  "no_pair x y \<longleftrightarrow>
     match_redundant_move [x, y] = Inr 0 \<and> match_redundant_load_store [x, y] = Inr 0"

text \<open>
  The two Instructions have the shape one of the two-element patterns looks for: a
  \<open>move\<close> before an \<open>add ..., $zero\<close> whose second operand is the first operand of the
  \<open>move\<close>, or an \<open>sw\<close> before an \<open>lw\<close> with the same second operand. A missing
  operand counts as a possible pair, so that nothing is said about it.
\<close>

definition window_pair :: "elem \<Rightarrow> elem \<Rightarrow> bool" where
  "window_pair x y =
     (case x of
        Lbl l \<Rightarrow> False
      | Instr a \<Rightarrow>
          (case y of
             Lbl l \<Rightarrow> False
           | Instr b \<Rightarrow>
               (opcode a = ''move'' \<and> add_zero_shape b
                  \<and> (args a = [] \<or> args a ! 0 = args b ! 1))
               \<or> (opcode a = ''sw'' \<and> opcode b = ''lw''
                  \<and> (length (args a) < 2 \<or> length (args b) < 2
                       \<or> args a ! 1 = args b ! 1))))"

text \<open>
  \<open>sep.join(pieces)\<close>, and the operands of an operand list in the words of the
  specification: the list is split strictly on \<open>,\<close>, each operand is trimmed, and the
  operands that are empty after trimming are dropped.
\<close>

fun join :: "char \<Rightarrow> string list \<Rightarrow> string" where
  "join sep [] = []"
| "join sep [p] = p"
| "join sep (p # q # ps) = p @ sep # join sep (q # ps)"

definition spec_operands :: "string \<Rightarrow> string list" where
  "spec_operands s = filter (\<lambda>a. a \<noteq> []) (map strip (split_on (CHR '','') s))"

text \<open>The IR elements that one line of the text contributes.\<close>

definition line_elems :: "string \<Rightarrow> elem list" where
  "line_elems raw = instructions (parse_line \<lparr>labels = [], instructions = []\<rparr> raw)"

text \<open>No pattern matches, and no matcher raises, at any position of the sequence.\<close>

fun stable :: "elem list \<Rightarrow> bool" where
  "stable [] = True"
| "stable (x # xs) = (try_patterns patterns (x # xs) = Inr None \<and> stable xs)"

fun is_label :: "elem \<Rightarrow> bool" where
  "is_label (Lbl l) = True"
| "is_label (Instr i) = False"

section \<open>The single pass as a recursion on the remaining input\<close>

declare optimize_loop.simps [simp del]

lemma appE_simps [simp]:
  "appE (Inl e) b = Inl e"
  "appE (Inr xs) (Inl e) = Inl e"
  "appE (Inr xs) (Inr ys) = Inr (xs @ ys)"
  "appE (Inr []) b = b"
  "appE a (Inr []) = a"
  by (auto simp: appE_def split: sum.splits)

lemma appE_assoc: "appE (appE a b) c = appE a (appE b c)"
  by (auto simp: appE_def split: sum.splits)

lemma appE_Inr_Inr: "appE (Inr xs) (appE (Inr ys) c) = appE (Inr (xs @ ys)) c"
  by (auto simp: appE_def split: sum.splits)

lemma appE_eq_Inr:
  "appE a b = Inr zs \<longleftrightarrow> (\<exists>xs ys. a = Inr xs \<and> b = Inr ys \<and> zs = xs @ ys)"
  by (auto simp: appE_def split: sum.splits)

lemma try_patterns_pos:
  "try_patterns ps suffix = Inr (Some (t, n)) \<Longrightarrow> 0 < n"
  by (induction ps suffix rule: try_patterns.induct) (auto split: sum.splits if_splits)

lemma optimize_loop_acc:
  "optimize_loop instrs i acc = appE (Inr acc) (optimize_loop instrs i [])"
proof (induction "length instrs - i" arbitrary: i acc rule: less_induct)
  case less
  show ?case
  proof (cases "i < length instrs")
    case False
    then show ?thesis
      by (simp add: optimize_loop.simps [of instrs i])
  next
    case True
    show ?thesis
    proof (cases "try_patterns patterns (drop i instrs)")
      case (Inl e)
      with True show ?thesis
        by (simp add: optimize_loop.simps [of instrs i])
    next
      case (Inr r)
      show ?thesis
      proof (cases r)
        case None
        have m: "length instrs - (i + 1) < length instrs - i"
          using True by simp
        have "optimize_loop instrs (i + 1) (acc @ [instrs ! i])
                = appE (Inr (acc @ [instrs ! i])) (optimize_loop instrs (i + 1) [])"
          by (rule less [OF m])
        moreover have "optimize_loop instrs (i + 1) ([] @ [instrs ! i])
                = appE (Inr ([] @ [instrs ! i])) (optimize_loop instrs (i + 1) [])"
          by (rule less [OF m])
        ultimately show ?thesis
          using True Inr None
          by (simp add: optimize_loop.simps [of instrs i] appE_Inr_Inr)
      next
        case (Some p)
        obtain t n where p: "p = (t, n)"
          by (cases p)
        have pos: "0 < n"
          using Inr Some p by (auto dest: try_patterns_pos)
        have m: "length instrs - (i + n) < length instrs - i"
          using True pos by simp
        have "optimize_loop instrs (i + n) (acc @ t)
                = appE (Inr (acc @ t)) (optimize_loop instrs (i + n) [])"
          by (rule less [OF m])
        moreover have "optimize_loop instrs (i + n) ([] @ t)
                = appE (Inr ([] @ t)) (optimize_loop instrs (i + n) [])"
          by (rule less [OF m])
        ultimately show ?thesis
          using True Inr Some p
          by (simp add: optimize_loop.simps [of instrs i] appE_Inr_Inr)
      qed
    qed
  qed
qed


lemma optimize_loop_drop:
  "optimize_loop instrs i [] = optimize_loop (drop i instrs) 0 []"
proof (induction "length instrs - i" arbitrary: instrs i rule: less_induct)
  case less
  show ?case
  proof (cases "i < length instrs")
    case False
    then show ?thesis
      by (simp add: optimize_loop.simps [of instrs i] optimize_loop.simps [of "[]" 0])
  next
    case True
    then have nth: "drop i instrs ! 0 = instrs ! i"
      by simp
    show ?thesis
    proof (cases "try_patterns patterns (drop i instrs)")
      case (Inl e)
      with True show ?thesis
        by (simp add: optimize_loop.simps [of instrs i] optimize_loop.simps [of "drop i instrs" 0])
    next
      case (Inr r)
      show ?thesis
      proof (cases r)
        case None
        have "optimize_loop instrs (i + 1) [] = optimize_loop (drop (i + 1) instrs) 0 []"
          using True by (intro less) simp
        moreover have "optimize_loop (drop i instrs) 1 []
                         = optimize_loop (drop 1 (drop i instrs)) 0 []"
          using True by (intro less) simp
        ultimately have "optimize_loop instrs (i + 1) [] = optimize_loop (drop i instrs) 1 []"
          by (simp add: add.commute)
        then show ?thesis
          using True Inr None nth
          by (simp add: optimize_loop.simps [of instrs i]
                optimize_loop.simps [of "drop i instrs" 0]
                optimize_loop_acc [of _ _ "[x]" for x])
      next
        case (Some p)
        obtain t n where p: "p = (t, n)"
          by (cases p)
        have pos: "0 < n"
          using Inr Some p by (auto dest: try_patterns_pos)
        have "optimize_loop instrs (i + n) [] = optimize_loop (drop (i + n) instrs) 0 []"
          using True pos by (intro less) simp
        moreover have "optimize_loop (drop i instrs) n []
                         = optimize_loop (drop n (drop i instrs)) 0 []"
          using True pos by (intro less) simp
        ultimately have "optimize_loop instrs (i + n) [] = optimize_loop (drop i instrs) n []"
          by (simp add: add.commute)
        then show ?thesis
          using True Inr Some p
          by (simp add: optimize_loop.simps [of instrs i]
                optimize_loop.simps [of "drop i instrs" 0]
                optimize_loop_acc [of _ _ t])
      qed
    qed
  qed
qed

lemma optimize_Nil [simp]: "optimize [] = Inr []"
  by (simp add: optimize_def optimize_loop.simps [of "[]" 0])

lemma optimize_Cons:
  "optimize (x # xs) =
     (case try_patterns patterns (x # xs) of
        Inl e \<Rightarrow> Inl e
      | Inr None \<Rightarrow> appE (Inr [x]) (optimize xs)
      | Inr (Some (t, n)) \<Rightarrow> appE (Inr t) (optimize (drop n (x # xs))))"
proof -
  have more: "optimize_loop (x # xs) n t = appE (Inr t) (optimize (drop n (x # xs)))" for n t
    using optimize_loop_acc [of "x # xs" n t] optimize_loop_drop [of "x # xs" n]
    by (simp add: optimize_def)
  have "optimize (x # xs) =
     (case try_patterns patterns (x # xs) of
        Inl e \<Rightarrow> Inl e
      | Inr None \<Rightarrow> optimize_loop (x # xs) 1 [x]
      | Inr (Some (t, n)) \<Rightarrow> optimize_loop (x # xs) n t)"
    by (simp add: optimize_def optimize_loop.simps [of "x # xs" 0]
          split: sum.splits option.splits)
  also have "\<dots> =
     (case try_patterns patterns (x # xs) of
        Inl e \<Rightarrow> Inl e
      | Inr None \<Rightarrow> appE (Inr [x]) (optimize xs)
      | Inr (Some (t, n)) \<Rightarrow> appE (Inr t) (optimize (drop n (x # xs))))"
    by (simp only: more drop_Suc_Cons drop_0 One_nat_def)
  finally show ?thesis .
qed

section \<open>The patterns at one cursor position\<close>

lemma match_add_zero_Instr:
  "match_add_zero (Instr a # r) = (if add_zero_shape a then Inr 1 else Inr 0)"
  by (simp add: add_zero_shape_def py_index_def)

lemma match_redundant_move_Instr:
  "match_redundant_move (Instr m # Instr a # r) =
     (if opcode m = ''move'' \<and> add_zero_shape a then
        (if args m = [] then Inl IndexError
         else if args m ! 0 = args a ! 1 then Inr 2 else Inr 0)
      else Inr 0)"
  by (simp add: add_zero_shape_def py_index_def)

lemma match_redundant_load_store_Instr:
  "match_redundant_load_store (Instr s # Instr l # r) =
     (if opcode s = ''sw'' \<and> opcode l = ''lw'' then
        (if length (args s) < 2 \<or> length (args l) < 2 then Inl IndexError
         else if args s ! 1 = args l ! 1 then Inr 2 else Inr 0)
      else Inr 0)"
  by (simp add: py_index_def)

lemma transform_add_zero_Instr:
  "add_zero_shape a \<Longrightarrow> transform_add_zero [Instr a] = Inr [Instr (add_zero_move a)]"
  by (simp add: add_zero_shape_def add_zero_move_def py_index_def)

lemma transform_redundant_move_Instr:
  "add_zero_shape a \<Longrightarrow>
   transform_redundant_move [Instr m, Instr a] =
     (if length (args m) < 2 then Inl IndexError else Inr [Instr (redundant_move_move m a)])"
  by (simp add: add_zero_shape_def redundant_move_move_def py_index_def)

lemma transform_redundant_load_store_Instr:
  "2 \<le> length (args s) \<Longrightarrow> 2 \<le> length (args l) \<Longrightarrow>
   transform_redundant_load_store [Instr s, Instr l] = Inr [Instr s, Instr (load_store_move s l)]"
  by (auto simp: load_store_move_def py_index_def)

lemma try_patterns_Lbl: "try_patterns patterns (Lbl l # xs) = Inr None"
  by (simp add: patterns_def)

lemma try_patterns_single:
  assumes "xs = [] \<or> (\<exists>l r. xs = Lbl l # r)"
  shows "try_patterns patterns (Instr x # xs) =
           (if add_zero_shape x then Inr (Some ([Instr (add_zero_move x)], 1)) else Inr None)"
  using assms
  by (auto simp add: patterns_def match_add_zero_Instr transform_add_zero_Instr
        simp del: match_add_zero.simps transform_add_zero.simps)

lemma try_patterns_Instr_Instr:
  "try_patterns patterns (Instr x # Instr y # r) =
     (if add_zero_shape x then Inr (Some ([Instr (add_zero_move x)], 1))
      else if opcode x = ''move'' \<and> add_zero_shape y then
        (if args x = [] then Inl IndexError
         else if args x ! 0 = args y ! 1 then
           (if length (args x) < 2 then Inl IndexError
            else Inr (Some ([Instr (redundant_move_move x y)], 2)))
         else Inr None)
      else if opcode x = ''sw'' \<and> opcode y = ''lw'' then
        (if length (args x) < 2 \<or> length (args y) < 2 then Inl IndexError
         else if args x ! 1 = args y ! 1 then
           Inr (Some ([Instr x, Instr (load_store_move x y)], 2))
         else Inr None)
      else Inr None)"
  by (simp add: patterns_def match_add_zero_Instr match_redundant_move_Instr
        match_redundant_load_store_Instr transform_add_zero_Instr
        transform_redundant_move_Instr transform_redundant_load_store_Instr
        numeral_2_eq_2 del: match_add_zero.simps match_redundant_move.simps
        match_redundant_load_store.simps transform_add_zero.simps
        transform_redundant_move.simps transform_redundant_load_store.simps)


lemma try_patterns_two: "try_patterns patterns (x # y # r) = try_patterns patterns (x # y # r')"
proof (cases x)
  case (Lbl l)
  then show ?thesis by (simp add: try_patterns_Lbl)
next
  case (Instr a)
  then show ?thesis
    by (cases y) (simp_all add: try_patterns_Instr_Instr try_patterns_single)
qed

lemma try_patterns_no_pair:
  "no_pair x y \<Longrightarrow> try_patterns patterns (x # y # r) = try_patterns patterns [x]"
proof (cases x)
  case (Lbl l)
  then show ?thesis by (simp add: try_patterns_Lbl)
next
  case (Instr a)
  assume np: "no_pair x y"
  show ?thesis
  proof (cases y)
    case (Lbl l)
    with Instr show ?thesis by (simp add: try_patterns_single)
  next
    case (Instr b)
    from np \<open>x = Instr a\<close> Instr
    have 1: "\<not> (opcode a = ''move'' \<and> add_zero_shape b)
               \<or> (args a \<noteq> [] \<and> args a ! 0 \<noteq> args b ! 1)"
      by (simp add: no_pair_def match_redundant_move_Instr
            del: match_redundant_move.simps split: if_splits)
    from np \<open>x = Instr a\<close> Instr
    have 2: "\<not> (opcode a = ''sw'' \<and> opcode b = ''lw'')
               \<or> (2 \<le> length (args a) \<and> 2 \<le> length (args b) \<and> args a ! 1 \<noteq> args b ! 1)"
      by (simp add: no_pair_def match_redundant_load_store_Instr
            del: match_redundant_load_store.simps split: if_splits)
    have 3: "try_patterns patterns [Instr a] =
               (if add_zero_shape a then Inr (Some ([Instr (add_zero_move a)], 1)) else Inr None)"
      by (simp add: try_patterns_single)
    show ?thesis
      unfolding \<open>x = Instr a\<close> Instr 3 try_patterns_Instr_Instr
      using 1 2 by auto
  qed
qed

lemma try_patterns_length:
  "try_patterns patterns xs = Inr (Some (t, n)) \<Longrightarrow> (n = 1 \<or> n = 2) \<and> n \<le> length xs"
proof (cases xs)
  case Nil
  assume "try_patterns patterns xs = Inr (Some (t, n))"
  with Nil show ?thesis
    by (simp add: patterns_def)
next
  case (Cons x r)
  assume tp: "try_patterns patterns xs = Inr (Some (t, n))"
  show ?thesis
  proof (cases x)
    case (Lbl l)
    with Cons tp show ?thesis by (simp add: try_patterns_Lbl)
  next
    case (Instr a)
    show ?thesis
    proof (cases r)
      case Nil
      with Cons Instr tp show ?thesis
        by (simp add: try_patterns_single split: if_splits)
    next
      case (Cons y r')
      with \<open>xs = x # r\<close> Instr tp show ?thesis
        by (cases y) (auto simp: try_patterns_single try_patterns_Instr_Instr split: if_splits)
    qed
  qed
qed

lemma optimize_append:
  assumes "pre = [] \<or> rest = [] \<or> no_pair (last pre) (hd rest)"
  shows "optimize (pre @ rest) = appE (optimize pre) (optimize rest)"
  using assms
proof (induction "length pre" arbitrary: pre rule: less_induct)
  case less
  show ?case
  proof (cases pre)
    case Nil
    then show ?thesis by simp
  next
    case (Cons x pre')
    show ?thesis
    proof (cases "rest = []")
      case True
      then show ?thesis by simp
    next
      case False
      then obtain y r where rest: "rest = y # r"
        by (cases rest) auto
      show ?thesis
      proof (cases pre')
        case Nil
        with Cons less.prems rest have "no_pair x y"
          by simp
        then have tp: "try_patterns patterns (x # y # r) = try_patterns patterns [x]"
          by (rule try_patterns_no_pair)
        show ?thesis
          using Cons Nil rest tp
          by (auto simp: optimize_Cons [of x "y # r"] optimize_Cons [of x "[]"]
                split: sum.splits option.splits dest: try_patterns_length)
      next
        case (Cons z pre'')
        have tp: "try_patterns patterns (x # z # pre'' @ rest) = try_patterns patterns (x # z # pre'')"
          by (rule try_patterns_two)
        have ih1: "optimize ((z # pre'') @ rest) = appE (optimize (z # pre'')) (optimize rest)"
          using less.prems \<open>pre = x # pre'\<close> Cons
          by (intro less.hyps) auto
        have ih2: "optimize (pre'' @ rest) = appE (optimize pre'') (optimize rest)"
          using less.prems \<open>pre = x # pre'\<close> Cons
          by (intro less.hyps) auto
        show ?thesis
        proof (cases "try_patterns patterns (x # z # pre'')")
          case (Inl e)
          with tp \<open>pre = x # pre'\<close> Cons show ?thesis
            by (simp add: optimize_Cons [of x])
        next
          case (Inr res)
          show ?thesis
          proof (cases res)
            case None
            with Inr tp \<open>pre = x # pre'\<close> Cons ih1 show ?thesis
              by (simp add: optimize_Cons [of x] appE_assoc)
          next
            case (Some p)
            obtain t n where p: "p = (t, n)" by (cases p)
            from Inr Some p have "n = 1 \<or> n = 2"
              by (auto dest: try_patterns_length)
            then show ?thesis
              using Inr Some p tp \<open>pre = x # pre'\<close> Cons ih1 ih2
              by (auto simp: optimize_Cons [of x] appE_assoc numeral_2_eq_2)
          qed
        qed
      qed
    qed
  qed
qed

section \<open>How the pass rewrites a window, wherever it stands\<close>

lemma optimize_Lbl: "optimize (Lbl l # xs) = appE (Inr [Lbl l]) (optimize xs)"
  by (simp add: optimize_Cons try_patterns_Lbl)

lemma optimize_add_zero:
  "add_zero_shape a \<Longrightarrow>
   optimize (Instr a # xs) = appE (Inr [Instr (add_zero_move a)]) (optimize xs)"
  by (cases xs rule: list.exhaust; cases "hd xs")
     (simp_all add: optimize_Cons try_patterns_single try_patterns_Instr_Instr)

lemma optimize_redundant_move:
  assumes "opcode m = ''move''" "add_zero_shape a" "2 \<le> length (args m)"
    "args m ! 0 = args a ! 1"
  shows "optimize (Instr m # Instr a # xs)
           = appE (Inr [Instr (redundant_move_move m a)]) (optimize xs)"
proof -
  have "\<not> add_zero_shape m"
    using assms(1) by (simp add: add_zero_shape_def)
  moreover have "args m \<noteq> []"
    using assms(3) by auto
  ultimately show ?thesis
    using assms by (simp add: optimize_Cons try_patterns_Instr_Instr)
qed

lemma optimize_load_store:
  assumes "opcode s = ''sw''" "opcode l = ''lw''" "2 \<le> length (args s)"
    "2 \<le> length (args l)" "args s ! 1 = args l ! 1"
  shows "optimize (Instr s # Instr l # xs)
           = appE (Inr [Instr s, Instr (load_store_move s l)]) (optimize xs)"
proof -
  have "\<not> add_zero_shape s"
    using assms(1) by (simp add: add_zero_shape_def)
  then show ?thesis
    using assms by (simp add: optimize_Cons try_patterns_Instr_Instr)
qed

lemma no_pair_Lbl [simp]: "no_pair x (Lbl l)" "no_pair (Lbl l) y"
  by (simp_all add: no_pair_def)

lemma no_pair_second:
  "opcode b \<noteq> ''lw'' \<Longrightarrow> \<not> add_zero_shape b \<Longrightarrow> no_pair x (Instr b)"
proof (cases x)
  case (Lbl l)
  then show ?thesis by (simp add: no_pair_def)
next
  case (Instr a)
  assume "opcode b \<noteq> ''lw''" "\<not> add_zero_shape b"
  with Instr show ?thesis
    by (simp add: no_pair_def match_redundant_move_Instr match_redundant_load_store_Instr
          del: match_redundant_move.simps match_redundant_load_store.simps)
qed

lemma optimize_split:
  assumes "pre = [] \<or> no_pair (last pre) x"
  shows "optimize (pre @ x # post) = appE (optimize pre) (optimize (x # post))"
  using assms by (intro optimize_append) auto

lemma optimize_Cons_cases [consumes 1, case_names copy add_zero redundant_move load_store]:
  assumes "optimize (x # xs) = Inr ys"
  obtains
    (copy) ys' where "try_patterns patterns (x # xs) = Inr None"
      and "optimize xs = Inr ys'" and "ys = x # ys'"
  | (add_zero) a ys' where "x = Instr a" and "add_zero_shape a"
      and "optimize xs = Inr ys'" and "ys = Instr (add_zero_move a) # ys'"
  | (redundant_move) m a r ys' where "x = Instr m" and "xs = Instr a # r"
      and "opcode m = ''move''" and "add_zero_shape a" and "2 \<le> length (args m)"
      and "args m ! 0 = args a ! 1" and "optimize r = Inr ys'"
      and "ys = Instr (redundant_move_move m a) # ys'"
  | (load_store) s l r ys' where "x = Instr s" and "xs = Instr l # r"
      and "opcode s = ''sw''" and "opcode l = ''lw''" and "2 \<le> length (args s)"
      and "2 \<le> length (args l)" and "args s ! 1 = args l ! 1" and "optimize r = Inr ys'"
      and "ys = Instr s # Instr (load_store_move s l) # ys'"
proof (cases x)
  case (Lbl l)
  with assms copy show ?thesis
    by (auto simp: optimize_Cons try_patterns_Lbl appE_eq_Inr)
next
  case (Instr a)
  show ?thesis
  proof (cases "add_zero_shape a")
    case True
    with assms Instr add_zero show ?thesis
      by (auto simp: optimize_add_zero appE_eq_Inr)
  next
    case False
    show ?thesis
    proof (cases "\<exists>b r. xs = Instr b # r")
      case no: False
      then have "xs = [] \<or> (\<exists>l r. xs = Lbl l # r)"
        by (cases xs; cases "hd xs") auto
      then have "try_patterns patterns (x # xs) = Inr None"
        using Instr False by (simp add: try_patterns_single)
      with assms copy show ?thesis
        by (auto simp: optimize_Cons appE_eq_Inr)
    next
      case True
      then obtain b r where xs: "xs = Instr b # r"
        by blast
      define T where "T = try_patterns patterns (x # xs)"
      have "T = Inr None \<or> T = Inl IndexError
          \<or> (opcode a = ''move'' \<and> add_zero_shape b \<and> 2 \<le> length (args a)
              \<and> args a ! 0 = args b ! 1
              \<and> T = Inr (Some ([Instr (redundant_move_move a b)], 2)))
          \<or> (opcode a = ''sw'' \<and> opcode b = ''lw'' \<and> 2 \<le> length (args a)
              \<and> 2 \<le> length (args b) \<and> args a ! 1 = args b ! 1
              \<and> T = Inr (Some ([Instr a, Instr (load_store_move a b)], 2)))"
        using False unfolding T_def Instr xs try_patterns_Instr_Instr
        by auto
      then consider
          (none) "try_patterns patterns (x # xs) = Inr None"
        | (err) "try_patterns patterns (x # xs) = Inl IndexError"
        | (rm) "opcode a = ''move''" "add_zero_shape b" "2 \<le> length (args a)"
            "args a ! 0 = args b ! 1"
            "try_patterns patterns (x # xs) = Inr (Some ([Instr (redundant_move_move a b)], 2))"
        | (ls) "opcode a = ''sw''" "opcode b = ''lw''" "2 \<le> length (args a)"
            "2 \<le> length (args b)" "args a ! 1 = args b ! 1"
            "try_patterns patterns (x # xs) = Inr (Some ([Instr a, Instr (load_store_move a b)], 2))"
        unfolding T_def by blast
      then show ?thesis
      proof cases
        case none
        with assms copy show ?thesis
          by (auto simp: optimize_Cons appE_eq_Inr)
      next
        case err
        with assms show ?thesis
          by (simp add: optimize_Cons)
      next
        case rm
        with assms redundant_move [of a b r] Instr xs show ?thesis
          by (auto simp: optimize_Cons appE_eq_Inr numeral_2_eq_2)
      next
        case ls
        with assms load_store [of a b r] Instr xs show ?thesis
          by (auto simp: optimize_Cons appE_eq_Inr numeral_2_eq_2)
      qed
    qed
  qed
qed

lemma optimize_filter:
  assumes P: "\<And>i. P (Instr i) \<Longrightarrow> opcode i \<notin> {''add'', ''move'', ''sw'', ''lw''}"
    and "optimize xs = Inr ys"
  shows "filter P ys = filter P xs"
  using assms(2)
proof (induction "length xs" arbitrary: xs ys rule: less_induct)
  case less
  show ?case
  proof (cases xs)
    case Nil
    with less.prems show ?thesis by simp
  next
    case (Cons x r)
    from less.prems [unfolded Cons] show ?thesis
    proof (cases rule: optimize_Cons_cases)
      case (copy ys')
      with less.hyps [of r ys'] Cons show ?thesis by simp
    next
      case (add_zero a ys')
      moreover have "\<not> P (Instr a)" "\<not> P (Instr (add_zero_move a))"
        using P [of a] P [of "add_zero_move a"] add_zero(2)
        by (auto simp: add_zero_shape_def add_zero_move_def)
      ultimately show ?thesis
        using less.hyps [of r ys'] Cons by simp
    next
      case (redundant_move m a r' ys')
      moreover have "\<not> P (Instr a)" "\<not> P (Instr m)" "\<not> P (Instr (redundant_move_move m a))"
        using P [of a] P [of m] P [of "redundant_move_move m a"] redundant_move(3,4)
        by (auto simp: add_zero_shape_def redundant_move_move_def)
      ultimately show ?thesis
        using less.hyps [of r' ys'] Cons by simp
    next
      case (load_store s l r' ys')
      moreover have "\<not> P (Instr s)" "\<not> P (Instr l)" "\<not> P (Instr (load_store_move s l))"
        using P [of s] P [of l] P [of "load_store_move s l"] load_store(3,4)
        by (auto simp: load_store_move_def)
      ultimately show ?thesis
        using less.hyps [of r' ys'] Cons by simp
    qed
  qed
qed

section \<open>The output of a pass\<close>

lemma stable_optimize: "stable ys \<Longrightarrow> optimize ys = Inr ys"
  by (induction ys) (simp_all add: optimize_Cons)

lemma try_patterns_None_add_zero:
  "try_patterns patterns (x # xs) = Inr None \<Longrightarrow> match_add_zero (x # r) = Inr 0"
  by (cases x)
     (auto simp: patterns_def split: sum.splits if_splits)

lemma optimize_head:
  assumes "optimize xs = Inr ys"
  shows "match_add_zero ys = Inr 0
         \<and> (take 1 ys = take 1 xs \<or> (\<exists>i r. ys = Instr i # r \<and> opcode i = ''move''))"
proof (cases xs)
  case Nil
  with assms show ?thesis by simp
next
  case (Cons x r)
  from assms [unfolded Cons] show ?thesis
  proof (cases rule: optimize_Cons_cases)
    case (copy ys')
    then show ?thesis
      using Cons try_patterns_None_add_zero [of x r ys'] by simp
  next
    case (add_zero a ys')
    then show ?thesis
      by (simp add: add_zero_move_def)
  next
    case (redundant_move m a r' ys')
    then show ?thesis
      by (simp add: redundant_move_move_def)
  next
    case (load_store s l r' ys')
    then show ?thesis
      using Cons by simp
  qed
qed

lemma try_patterns_after_move:
  assumes "opcode i = ''move''" and "match_add_zero ys = Inr 0"
  shows "try_patterns patterns (Instr i # ys) = Inr None"
proof -
  have i: "\<not> add_zero_shape i"
    using assms(1) by (simp add: add_zero_shape_def)
  show ?thesis
  proof (cases "\<exists>b r. ys = Instr b # r")
    case True
    then obtain b r where ys: "ys = Instr b # r" by blast
    with assms(2) have "\<not> add_zero_shape b"
      by (simp add: match_add_zero_Instr del: match_add_zero.simps split: if_splits)
    with i assms(1) ys show ?thesis
      by (simp add: try_patterns_Instr_Instr)
  next
    case False
    then have "ys = [] \<or> (\<exists>l r. ys = Lbl l # r)"
      by (cases ys; cases "hd ys") auto
    with i show ?thesis
      by (simp add: try_patterns_single)
  qed
qed

lemma try_patterns_copy_stable:
  assumes none: "try_patterns patterns (x # xs) = Inr None"
    and hd: "take 1 ys = take 1 xs \<or> (\<exists>i r. ys = Instr i # r \<and> opcode i = ''move'')"
  shows "try_patterns patterns (x # ys) = Inr None"
proof (cases x)
  case (Lbl l)
  then show ?thesis by (simp add: try_patterns_Lbl)
next
  case (Instr a)
  from none Instr have a: "\<not> add_zero_shape a"
    using try_patterns_None_add_zero [OF none, of "[]"]
    by (simp add: match_add_zero_Instr del: match_add_zero.simps split: if_splits)
  show ?thesis
  proof (cases "\<exists>b r. ys = Instr b # r")
    case False
    then have "ys = [] \<or> (\<exists>l r. ys = Lbl l # r)"
      by (cases ys; cases "hd ys") auto
    with a Instr show ?thesis
      by (simp add: try_patterns_single)
  next
    case True
    then obtain b r where ys: "ys = Instr b # r" by blast
    from hd show ?thesis
    proof
      assume "take 1 ys = take 1 xs"
      with ys obtain r' where "xs = Instr b # r'"
        by (cases xs) auto
      with none ys show ?thesis
        using try_patterns_two [of x "Instr b" r r'] by simp
    next
      assume "\<exists>i r. ys = Instr i # r \<and> opcode i = ''move''"
      with ys have "opcode b = ''move''" by auto
      then have "\<not> add_zero_shape b" "opcode b \<noteq> ''lw''"
        by (simp_all add: add_zero_shape_def)
      with a Instr ys show ?thesis
        by (simp add: try_patterns_Instr_Instr)
    qed
  qed
qed

lemma optimize_stable: "optimize xs = Inr ys \<Longrightarrow> stable ys"
proof (induction "length xs" arbitrary: xs ys rule: less_induct)
  case less
  show ?case
  proof (cases xs)
    case Nil
    with less.prems show ?thesis by simp
  next
    case (Cons x r)
    from less.prems [unfolded Cons] show ?thesis
    proof (cases rule: optimize_Cons_cases)
      case (copy ys')
      have "stable ys'"
        using less.hyps [of r ys'] copy Cons by simp
      moreover have "try_patterns patterns (x # ys') = Inr None"
        using copy(1) optimize_head [OF copy(2), THEN conjunct2]
        by (rule try_patterns_copy_stable)
      ultimately show ?thesis
        using copy by simp
    next
      case (add_zero a ys')
      have "stable ys'"
        using less.hyps [of r ys'] add_zero Cons by simp
      moreover have "try_patterns patterns (Instr (add_zero_move a) # ys') = Inr None"
        using optimize_head [OF add_zero(3)]
        by (intro try_patterns_after_move) (simp_all add: add_zero_move_def)
      ultimately show ?thesis
        using add_zero by simp
    next
      case (redundant_move m a r' ys')
      have "stable ys'"
        using less.hyps [of r' ys'] redundant_move Cons by simp
      moreover have "try_patterns patterns (Instr (redundant_move_move m a) # ys') = Inr None"
        using optimize_head [OF redundant_move(7)]
        by (intro try_patterns_after_move) (simp_all add: redundant_move_move_def)
      ultimately show ?thesis
        using redundant_move by simp
    next
      case (load_store s l r' ys')
      have "stable ys'"
        using less.hyps [of r' ys'] load_store Cons by simp
      moreover have "try_patterns patterns (Instr (load_store_move s l) # ys') = Inr None"
        using optimize_head [OF load_store(8)]
        by (intro try_patterns_after_move) (simp_all add: load_store_move_def)
      moreover have "try_patterns patterns (Instr s # Instr (load_store_move s l) # ys') = Inr None"
        using load_store(3)
        by (simp add: try_patterns_Instr_Instr add_zero_shape_def load_store_move_def)
      ultimately show ?thesis
        using load_store by simp
    qed
  qed
qed

lemma optimize_twice: "optimize s = Inr t \<Longrightarrow> optimize t = Inr t"
  by (rule stable_optimize) (rule optimize_stable)

section \<open>Trimming\<close>

lemma is_space_simps [simp]:
  "\<not> is_space (CHR ''#'')" "\<not> is_space (CHR '','')" "\<not> is_space (CHR '':'')"
  "\<not> is_space (CHR ''_'')"
  by (simp_all add: is_space_def)

lemma is_alpha_not_space: "is_alpha c \<Longrightarrow> \<not> is_space c"
  by (auto simp: is_alpha_def is_space_def Let_def)

lemma is_ident_start_not_space: "is_ident_start c \<Longrightarrow> \<not> is_space c"
  by (auto simp: is_ident_start_def dest: is_alpha_not_space)

lemma is_ident_simps [simp]:
  "\<not> is_ident_char (CHR '':'')" "\<not> is_ident_start (CHR ''#'')" "\<not> is_alpha (CHR ''#'')"
  by (simp_all add: is_ident_char_def is_ident_start_def is_alpha_def)

lemma lower_alpha: "is_alpha c \<Longrightarrow> is_alpha (lower c) \<and> \<not> is_upper (lower c)"
  by (auto simp: is_alpha_def is_upper_def lower_def Let_def)

lemma lstrip_Nil [simp]: "lstrip [] = []"
  by (simp add: lstrip_def)

lemma rstrip_Nil [simp]: "rstrip [] = []"
  by (simp add: rstrip_def)

lemma strip_Nil [simp]: "strip [] = []"
  by (simp add: strip_def)

lemma lstrip_Cons: "lstrip (c # s) = (if is_space c then lstrip s else c # s)"
  by (simp add: lstrip_def)

lemma lstrip_idem [simp]: "lstrip (lstrip s) = lstrip s"
  by (simp add: lstrip_def dropWhile_idem)

lemma rstrip_idem [simp]: "rstrip (rstrip s) = rstrip s"
  by (simp add: rstrip_def dropWhile_idem)

lemma lstrip_hd: "lstrip s \<noteq> [] \<Longrightarrow> \<not> is_space (hd (lstrip s))"
  unfolding lstrip_def by (rule hd_dropWhile)

lemma rstrip_last: "rstrip s \<noteq> [] \<Longrightarrow> \<not> is_space (last (rstrip s))"
  unfolding rstrip_def using hd_dropWhile [of is_space "rev s"]
  by (simp add: last_rev)

lemma lstrip_id: "s = [] \<or> \<not> is_space (hd s) \<Longrightarrow> lstrip s = s"
  by (cases s) (auto simp: lstrip_def)

lemma rstrip_id: "s = [] \<or> \<not> is_space (last s) \<Longrightarrow> rstrip s = s"
  by (cases s rule: rev_cases) (auto simp: rstrip_def)

lemma rstrip_hd: "rstrip s \<noteq> [] \<Longrightarrow> hd (rstrip s) = hd s"
proof (induction s rule: rev_induct)
  case Nil
  then show ?case by simp
next
  case (snoc c s)
  then show ?case
    by (cases "is_space c"; cases s) (auto simp: rstrip_def)
qed

lemma strip_hd: "strip s \<noteq> [] \<Longrightarrow> \<not> is_space (hd (strip s))"
  unfolding strip_def using rstrip_hd [of "lstrip s"] lstrip_hd [of s]
  by (cases "lstrip s = []") auto

lemma strip_last: "strip s \<noteq> [] \<Longrightarrow> \<not> is_space (last (strip s))"
  unfolding strip_def by (rule rstrip_last)

lemma strip_id: "s = [] \<or> (\<not> is_space (hd s) \<and> \<not> is_space (last s)) \<Longrightarrow> strip s = s"
  by (auto simp: strip_def lstrip_id rstrip_id)

lemma strip_idem [simp]: "strip (strip s) = strip s"
  using strip_hd [of s] strip_last [of s] by (intro strip_id) auto

lemma strip_lstrip [simp]: "strip (lstrip s) = strip s"
  by (simp add: strip_def)

lemma lstrip_strip [simp]: "lstrip (strip s) = strip s"
  using strip_hd [of s] by (intro lstrip_id) auto

lemma set_lstrip: "set (lstrip s) \<subseteq> set s"
  by (auto simp: lstrip_def dest: set_dropWhileD)

lemma set_rstrip: "set (rstrip s) \<subseteq> set s"
  by (auto simp: rstrip_def dest: set_dropWhileD)

lemma set_strip: "set (strip s) \<subseteq> set s"
  using set_lstrip [of s] set_rstrip [of "lstrip s"] by (auto simp: strip_def)

lemma strip_no_space: "\<forall>c\<in>set s. \<not> is_space c \<Longrightarrow> strip s = s"
  by (intro strip_id) (cases s, auto)

lemma lstrip_all_space: "(\<forall>c\<in>set s. is_space c) \<Longrightarrow> lstrip s = []"
  by (simp add: lstrip_def)

section \<open>Splitting\<close>

lemma split_on_not_Nil [simp]: "split_on sep s \<noteq> []"
  by (induction s) (auto split: list.splits)

lemma split_on_Cons:
  "split_on sep (c # cs) =
     (if c = sep then [] # split_on sep cs
      else (c # hd (split_on sep cs)) # tl (split_on sep cs))"
  by (cases "split_on sep cs") simp_all

lemma join_Cons: "ps \<noteq> [] \<Longrightarrow> join sep (p # ps) = p @ sep # join sep ps"
  by (cases ps) simp_all

lemma join_split_on: "join sep (split_on sep s) = s"
proof (induction s)
  case Nil
  show ?case by simp
next
  case (Cons c cs)
  show ?case
  proof (cases "c = sep")
    case True
    with Cons show ?thesis by (simp add: join_Cons)
  next
    case False
    obtain p ps where ps: "split_on sep cs = p # ps"
      by (cases "split_on sep cs") simp_all
    with Cons False show ?thesis
      by (cases ps) simp_all
  qed
qed

lemma split_on_no_sep: "p \<in> set (split_on sep s) \<Longrightarrow> sep \<notin> set p"
  by (induction s arbitrary: p) (auto split: if_splits list.splits)

lemma split_on_without_sep: "sep \<notin> set w \<Longrightarrow> split_on sep w = [w]"
  by (induction w) auto

lemma split_on_prepend:
  "sep \<notin> set w \<Longrightarrow>
   split_on sep (w @ s) = (w @ hd (split_on sep s)) # tl (split_on sep s)"
  by (induction w) (auto simp: split_on_Cons)

lemma split_on_append:
  "sep \<notin> set w \<Longrightarrow>
   split_on sep (s @ w) = butlast (split_on sep s) @ [last (split_on sep s) @ w]"
proof (induction s)
  case Nil
  then show ?case by (simp add: split_on_without_sep)
next
  case (Cons c cs)
  then show ?case
    by (cases "split_on sep cs"; cases "tl (split_on sep cs)")
       (auto simp: split_on_Cons)
qed

lemma lstrip_prepend: "\<forall>c\<in>set w. is_space c \<Longrightarrow> lstrip (w @ s) = lstrip s"
  by (simp add: lstrip_def dropWhile_append2)

lemma rstrip_append: "\<forall>c\<in>set w. is_space c \<Longrightarrow> rstrip (s @ w) = rstrip s"
  using dropWhile_append2 [of "rev w" is_space "rev s"] by (simp add: rstrip_def)

lemma lstrip_append:
  "\<forall>c\<in>set w. is_space c \<Longrightarrow>
   lstrip (s @ w) = (if \<forall>c\<in>set s. is_space c then [] else lstrip s @ w)"
  by (auto simp: lstrip_def dropWhile_append1 dropWhile_append2)

lemma strip_prepend: "\<forall>c\<in>set w. is_space c \<Longrightarrow> strip (w @ s) = strip s"
  by (simp add: strip_def lstrip_prepend)

lemma strip_append: "\<forall>c\<in>set w. is_space c \<Longrightarrow> strip (s @ w) = strip s"
  by (auto simp: strip_def lstrip_append rstrip_append lstrip_all_space)

lemma lstrip_decomp: "\<exists>w. s = w @ lstrip s \<and> (\<forall>c\<in>set w. is_space c)"
  unfolding lstrip_def
  by (rule exI [of _ "takeWhile is_space s"]) (auto dest: set_takeWhileD)

lemma rstrip_decomp: "\<exists>w. s = rstrip s @ w \<and> (\<forall>c\<in>set w. is_space c)"
proof -
  have "rev s = takeWhile is_space (rev s) @ dropWhile is_space (rev s)"
    by simp
  then have "s = rev (dropWhile is_space (rev s)) @ rev (takeWhile is_space (rev s))"
    by (metis rev_append rev_rev_ident)
  moreover have "\<forall>c\<in>set (rev (takeWhile is_space (rev s))). is_space c"
    by (auto dest: set_takeWhileD)
  ultimately show ?thesis
    unfolding rstrip_def by blast
qed

lemma spaces_no_comma: "\<forall>c\<in>set w. is_space c \<Longrightarrow> CHR '','' \<notin> set w"
  by auto

lemma spec_operands_prepend:
  assumes "\<forall>c\<in>set w. is_space c"
  shows "spec_operands (w @ s) = spec_operands s"
proof -
  obtain p ps where ps: "split_on (CHR '','') s = p # ps"
    by (cases "split_on (CHR '','') s") simp_all
  then show ?thesis
    using assms
    by (simp add: spec_operands_def split_on_prepend spaces_no_comma strip_prepend)
qed

lemma spec_operands_append:
  assumes "\<forall>c\<in>set w. is_space c"
  shows "spec_operands (s @ w) = spec_operands s"
proof -
  obtain ps p where ps: "split_on (CHR '','') s = ps @ [p]"
    by (cases "split_on (CHR '','') s" rule: rev_cases) simp_all
  then show ?thesis
    using assms
    by (simp add: spec_operands_def split_on_append spaces_no_comma strip_append)
qed

lemma spec_operands_lstrip [simp]: "spec_operands (lstrip s) = spec_operands s"
  using lstrip_decomp [of s] spec_operands_prepend by metis

lemma spec_operands_rstrip [simp]: "spec_operands (rstrip s) = spec_operands s"
  using rstrip_decomp [of s] spec_operands_append by metis

lemma comprehension_filter:
  "[f x. x \<leftarrow> xs, f x \<noteq> []] = filter (\<lambda>a. a \<noteq> []) (map f xs)"
  by (induction xs) simp_all

lemma spec_operands_trimmed:
  assumes "a \<in> set (spec_operands s)"
  shows "a \<noteq> [] \<and> strip a = a \<and> CHR '','' \<notin> set a"
proof -
  from assms obtain p where p: "p \<in> set (split_on (CHR '','') s)" and a: "a = strip p" "a \<noteq> []"
    by (auto simp: spec_operands_def)
  from p have "CHR '','' \<notin> set p"
    by (rule split_on_no_sep)
  with a set_strip [of p] show ?thesis
    by auto
qed

section \<open>One instruction line\<close>

lemma opcode_letters:
  "strip (takeWhile is_alpha s) = takeWhile is_alpha s"
  by (intro strip_no_space) (auto dest: set_takeWhileD is_alpha_not_space)

lemma instruction_match_None:
  "instruction_match line = None \<longleftrightarrow> takeWhile is_alpha (lstrip line) = []"
  by (simp add: instruction_match_def Let_def split: list.splits)

lemma instruction_match_operands:
  assumes "instruction_match line = Some (opc, args_str, cm)"
  shows "opc = takeWhile is_alpha (lstrip line) \<and> opc \<noteq> []
         \<and> spec_operands args_str
             = spec_operands (takeWhile (\<lambda>c. c \<noteq> CHR ''#'') (dropWhile is_alpha (lstrip line)))"
proof -
  let ?tail = "dropWhile is_alpha (lstrip line)"
  let ?r = "lstrip ?tail"
  let ?P = "\<lambda>c. c \<noteq> CHR ''#''"
  obtain w where w: "?tail = w @ ?r" "\<forall>c\<in>set w. is_space c"
    using lstrip_decomp [of ?tail] by blast
  then have "\<forall>c\<in>set w. c \<noteq> CHR ''#''"
    by auto
  then have "takeWhile ?P (w @ ?r) = w @ takeWhile ?P ?r"
    by (intro takeWhile_append2) simp
  then have tw: "takeWhile ?P ?tail = w @ takeWhile ?P ?r"
    using w(1) by simp
  have nonempty: "takeWhile is_alpha (lstrip line) \<noteq> []"
    using assms instruction_match_None [of line] by auto
  then have m: "(case dropWhile ?P ?r of
                   [] \<Rightarrow> Some (takeWhile is_alpha (lstrip line), ?r, None)
                 | h # cm' \<Rightarrow> Some (takeWhile is_alpha (lstrip line),
                               rstrip (takeWhile ?P ?r), Some (lstrip cm')))
                = Some (opc, args_str, cm)"
    using assms by (simp add: instruction_match_def Let_def)
  have opc: "opc = takeWhile is_alpha (lstrip line)"
    using m by (cases "dropWhile ?P ?r") simp_all
  have "spec_operands args_str = spec_operands (takeWhile ?P ?r)"
  proof (cases "dropWhile ?P ?r")
    case Nil
    then have tk: "takeWhile ?P ?r = ?r"
      using takeWhile_dropWhile_id [of ?P ?r] by simp
    from m have "args_str = ?r"
      unfolding Nil by simp
    then show ?thesis
      by (simp only: tk)
  next
    case (Cons h cm')
    from m have "args_str = rstrip (takeWhile ?P ?r)"
      unfolding Cons by simp
    then show ?thesis by simp
  qed
  also have "\<dots> = spec_operands (w @ takeWhile ?P ?r)"
    using w(2) by (simp add: spec_operands_prepend)
  also have "\<dots> = spec_operands (takeWhile ?P ?tail)"
    by (simp only: tw)
  finally show ?thesis
    using opc nonempty by simp
qed

lemma parse_instruction_None:
  "parse_instruction line = None \<longleftrightarrow> takeWhile is_alpha (lstrip line) = []"
  by (auto simp: parse_instruction_def instruction_match_None [symmetric] split: option.splits)

lemma parse_instruction_Some:
  assumes "parse_instruction line = Some ins"
  shows "opcode ins = map lower (takeWhile is_alpha (lstrip line))"
    and "opcode ins \<noteq> []"
    and "args ins = spec_operands (takeWhile (\<lambda>c. c \<noteq> CHR ''#'')
                                     (dropWhile is_alpha (lstrip line)))"
    and "original_text ins = Some line"
proof -
  from assms obtain opc args_str cm where m: "instruction_match line = Some (opc, args_str, cm)"
    and ins: "ins = \<lparr>opcode = map lower (strip opc),
                args = [strip arg. arg \<leftarrow> split_on (CHR '','') args_str, strip arg \<noteq> []],
                comment = (case cm of
                             None \<Rightarrow> None
                           | Some c \<Rightarrow> if c = [] then None else Some (strip c)),
                original_text = Some line\<rparr>"
    by (auto simp: parse_instruction_def split: option.splits)
  note facts = instruction_match_operands [OF m]
  from facts ins show "opcode ins = map lower (takeWhile is_alpha (lstrip line))"
    by (simp add: opcode_letters)
  from facts ins show "opcode ins \<noteq> []"
    by (auto simp: opcode_letters)
  have "args ins = filter (\<lambda>a. a \<noteq> []) (map strip (split_on (CHR '','') args_str))"
    unfolding ins by (simp only: instruction.simps comprehension_filter)
  also have "\<dots> = spec_operands args_str"
    by (simp only: spec_operands_def)
  finally show "args ins = spec_operands (takeWhile (\<lambda>c. c \<noteq> CHR ''#'')
                                     (dropWhile is_alpha (lstrip line)))"
    using facts by simp
  from ins show "original_text ins = Some line"
    by simp
qed

section \<open>One line of the text, and the whole text\<close>

lemma instructions_parse_line:
  "instructions (parse_line st raw) = instructions st @ line_elems raw"
  by (simp add: parse_line_def line_elems_def Let_def split: option.splits)

lemma instructions_foldl_parse_line:
  "instructions (foldl parse_line st ls) = instructions st @ concat (map line_elems ls)"
  by (induction ls arbitrary: st) (simp_all add: instructions_parse_line)

lemma parse_text_concat: "parse_text text = concat (map line_elems (splitlines text))"
  by (simp add: parse_text_def parse_state_def instructions_foldl_parse_line)

lemma line_elems_blank: "strip raw = [] \<Longrightarrow> line_elems raw = []"
  by (simp add: line_elems_def parse_line_def)

lemma line_elems_comment: "strip raw = CHR ''#'' # r \<Longrightarrow> line_elems raw = []"
  by (simp add: line_elems_def parse_line_def comment_match_def lstrip_Cons)

lemma label_match_ident:
  assumes "ident \<noteq> []" and "is_ident_start (hd ident)" and "\<forall>c\<in>set ident. is_ident_char c"
  shows "label_match (ident @ CHR '':'' # rest) = Some (ident, lstrip rest)"
proof -
  obtain c r where ident: "ident = c # r"
    using assms(1) by (cases ident) auto
  with assms have c: "is_ident_start c" "\<not> is_space c" and r: "\<forall>d\<in>set r. is_ident_char d"
    by (auto dest: is_ident_start_not_space)
  from r have "dropWhile is_ident_char (r @ CHR '':'' # rest) = CHR '':'' # rest"
    by (simp add: dropWhile_append2)
  moreover from r have "takeWhile is_ident_char (r @ CHR '':'' # rest) = r"
    by (simp add: takeWhile_append2)
  ultimately show ?thesis
    using c ident by (simp add: label_match_def lstrip_Cons)
qed

lemma line_elems_label:
  assumes "strip raw = ident @ CHR '':'' # rest"
    and "ident \<noteq> []" and "is_ident_start (hd ident)" and "\<forall>c\<in>set ident. is_ident_char c"
  shows "line_elems raw =
           (case (if strip rest = [] then None else parse_instruction (lstrip rest)) of
              None \<Rightarrow> [Lbl \<lparr>name = ident, instruction = None\<rparr>]
            | Some ins \<Rightarrow> [Lbl \<lparr>name = ident, instruction = Some ins\<rparr>, Instr ins])"
proof -
  have "\<not> comment_match (strip raw)"
    using assms(1-3) by (cases ident) (auto simp: comment_match_def lstrip_Cons
        dest: is_ident_start_not_space)
  moreover have "label_match (strip raw) = Some (ident, lstrip rest)"
    unfolding assms(1) using assms(2-4) by (rule label_match_ident)
  ultimately show ?thesis
    using assms(1)
    by (simp add: line_elems_def parse_line_def Let_def split: option.splits)
qed

text \<open>The lines handed to the regular expressions hold no line boundary.\<close>

lemma splitlines_from_no_linebreak:
  assumes "l \<in> set (splitlines_from cur s)" and "\<forall>c\<in>set cur. \<not> is_linebreak c"
  shows "\<forall>c\<in>set l. \<not> is_linebreak c"
  using assms
proof (induction cur s rule: splitlines_from.induct)
  case (1 cur)
  then show ?case by (auto split: if_splits)
next
  case (2 cur c cs)
  show ?case
  proof (cases "is_linebreak c")
    case True
    with "2.prems" "2.IH"(1) show ?thesis
      by auto
  next
    case False
    with "2.prems" "2.IH"(2) show ?thesis
      by auto
  qed
qed

lemma splitlines_no_newline:
  "l \<in> set (splitlines t) \<Longrightarrow> CHR 0x0A \<notin> set l"
proof -
  assume "l \<in> set (splitlines t)"
  then have "\<forall>c\<in>set l. \<not> is_linebreak c"
    unfolding splitlines_def by (rule splitlines_from_no_linebreak) simp
  moreover have "is_linebreak (CHR 0x0A)"
    by (simp add: is_linebreak_def)
  ultimately show ?thesis by auto
qed

section \<open>Instructions outside every window\<close>

lemma no_pair_window_pair: "no_pair x y \<longleftrightarrow> \<not> window_pair x y"
proof (cases x)
  case (Lbl l)
  then show ?thesis by (simp add: window_pair_def)
next
  case (Instr a)
  show ?thesis
  proof (cases y)
    case (Lbl l)
    with Instr show ?thesis by (simp add: window_pair_def)
  next
    case y: (Instr b)
    show ?thesis
      unfolding Instr y no_pair_def window_pair_def
        match_redundant_move_Instr match_redundant_load_store_Instr
      by (auto simp: add_zero_shape_def)
  qed
qed

lemma optimize_unmatched:
  assumes "\<not> add_zero_shape i"
    and "pre = [] \<or> \<not> window_pair (last pre) (Instr i)"
    and "post = [] \<or> \<not> window_pair (Instr i) (hd post)"
  shows "optimize (pre @ Instr i # post)
           = appE (optimize pre) (appE (Inr [Instr i]) (optimize post))"
proof -
  have "optimize (pre @ Instr i # post) = appE (optimize pre) (optimize (Instr i # post))"
    using assms(2) by (intro optimize_split) (simp add: no_pair_window_pair)
  moreover have "try_patterns patterns (Instr i # post) = Inr None"
  proof (cases post)
    case Nil
    with assms(1) show ?thesis
      by (simp add: try_patterns_single)
  next
    case (Cons y r)
    with assms(3) have "no_pair (Instr i) y"
      by (simp add: no_pair_window_pair)
    then have "try_patterns patterns (Instr i # y # r) = try_patterns patterns [Instr i]"
      by (rule try_patterns_no_pair)
    with assms(1) Cons show ?thesis
      by (simp add: try_patterns_single)
  qed
  ultimately show ?thesis
    by (simp add: optimize_Cons)
qed

section \<open>The store-then-load pattern\<close>

text \<open>
  Claim C3. Wherever an \<open>sw\<close> Instruction is directly followed by an \<open>lw\<close> Instruction and
  the two have the same second operand token (so both have at least two operands),
  \<open>optimize\<close> keeps the store as it is and puts in place of the load a \<open>move\<close> from the
  store's first operand to the load's first operand; what stands before and after the
  pair is optimized on its own. The witness is the example of the specification,
  \<open>sw $t1, 0($sp)\<close> followed by \<open>lw $t2, 0($sp)\<close>.
\<close>

theorem store_then_load:
  assumes "opcode s = ''sw''" and "opcode l = ''lw''"
    and "2 \<le> length (args s)" and "2 \<le> length (args l)"
    and "args s ! 1 = args l ! 1"
  shows "optimize (pre @ Instr s # Instr l # post) =
           appE (optimize pre)
             (appE (Inr [Instr s,
                         Instr \<lparr>opcode = ''move'', args = [args l ! 0, args s ! 0],
                           comment = Some (''Optimized from: '' @ py_str (original_text l)),
                           original_text = None\<rparr>])
                (optimize post))"
proof -
  have "\<not> add_zero_shape s"
    using assms(1) by (simp add: add_zero_shape_def)
  then have "no_pair x (Instr s)" for x
    using assms(1) by (intro no_pair_second) simp_all
  then have "optimize (pre @ Instr s # Instr l # post)
               = appE (optimize pre) (optimize (Instr s # Instr l # post))"
    by (intro optimize_split) simp
  then show ?thesis
    using assms by (simp add: optimize_load_store load_store_move_def)
qed

theorem store_then_load_witness:
  "optimize [Instr \<lparr>opcode = ''sw'', args = [''$t1'', ''0($sp)''], comment = None,
                    original_text = None\<rparr>,
             Instr \<lparr>opcode = ''lw'', args = [''$t2'', ''0($sp)''], comment = None,
                    original_text = None\<rparr>]
   = Inr [Instr \<lparr>opcode = ''sw'', args = [''$t1'', ''0($sp)''], comment = None,
                 original_text = None\<rparr>,
          Instr \<lparr>opcode = ''move'', args = [''$t2'', ''$t1''],
                 comment = Some ''Optimized from: None'', original_text = None\<rparr>]"
  using store_then_load [of
      "\<lparr>opcode = ''sw'', args = [''$t1'', ''0($sp)''], comment = None, original_text = None\<rparr>"
      "\<lparr>opcode = ''lw'', args = [''$t2'', ''0($sp)''], comment = None, original_text = None\<rparr>"
      "[]" "[]"]
  by (simp add: py_str_def)

section \<open>The redundant-move pattern\<close>

text \<open>
  Claim C4 is not met by the code when the \<open>move\<close> has a single operand. The conditions
  of the claim hold of the pair below, the matcher of the redundant-move pattern reads
  only the first operand of the \<open>move\<close> and reports a match, and the transformer then
  reads the second operand of the \<open>move\<close> without a check of the operand count: where
  the claim has the pair replaced by a single \<open>move\<close>, \<open>optimize\<close> raises IndexError.
\<close>

theorem redundant_move_one_operand_raises:
  "opcode \<lparr>opcode = ''move'', args = [''$t1''], comment = None, original_text = None\<rparr> = ''move''
   \<and> opcode \<lparr>opcode = ''add'', args = [''$t2'', ''$t1'', ''$zero''], comment = None,
              original_text = None\<rparr> = ''add''
   \<and> length [''$t2'', ''$t1'', ''$zero''] = 3
   \<and> [''$t2'', ''$t1'', ''$zero''] ! 2 = ''$zero''
   \<and> [''$t2'', ''$t1'', ''$zero''] ! 1 = [''$t1''] ! 0
   \<and> optimize [Instr \<lparr>opcode = ''move'', args = [''$t1''], comment = None,
                        original_text = None\<rparr>,
                 Instr \<lparr>opcode = ''add'', args = [''$t2'', ''$t1'', ''$zero''], comment = None,
                        original_text = None\<rparr>]
       = Inl IndexError"
  by (simp add: optimize_Cons try_patterns_Instr_Instr add_zero_shape_def)

text \<open>
  The redundant-move pattern on a \<open>move\<close> that has both operands. Wherever such a
  \<open>move\<close> is directly followed by an \<open>add\<close> Instruction with exactly three operands,
  the third being \<open>$zero\<close> and the second being the first operand of the \<open>move\<close>,
  \<open>optimize\<close> puts the single Instruction \<open>move <add.arg0>, <move.arg1>\<close> in place of
  the pair; what stands before and after the pair is optimized on its own. The instance
  that follows is \<open>move $t1, $t0\<close> before \<open>add $t2, $t1, $zero\<close>.
\<close>

theorem redundant_move_into_add_zero:
  assumes "opcode m = ''move''" and "opcode a = ''add''"
    and "length (args a) = 3" and "args a ! 2 = ''$zero''"
    and "args a ! 1 = args m ! 0" and "2 \<le> length (args m)"
  shows "optimize (pre @ Instr m # Instr a # post) =
           appE (optimize pre)
             (appE (Inr [Instr \<lparr>opcode = ''move'', args = [args a ! 0, args m ! 1],
                           comment = Some (''Optimized from: '' @ py_str (original_text m)
                                           @ '' and '' @ py_str (original_text a)),
                           original_text = None\<rparr>])
                (optimize post))"
proof -
  have "\<not> add_zero_shape m"
    using assms(1) by (simp add: add_zero_shape_def)
  then have "no_pair x (Instr m)" for x
    using assms(1) by (intro no_pair_second) simp_all
  then have "optimize (pre @ Instr m # Instr a # post)
               = appE (optimize pre) (optimize (Instr m # Instr a # post))"
    by (intro optimize_split) simp
  moreover have "add_zero_shape a"
    using assms by (simp add: add_zero_shape_def)
  ultimately show ?thesis
    using assms by (simp add: optimize_redundant_move redundant_move_move_def)
qed

theorem redundant_move_into_add_zero_witness:
  "optimize [Instr \<lparr>opcode = ''move'', args = [''$t1'', ''$t0''], comment = None,
                    original_text = None\<rparr>,
             Instr \<lparr>opcode = ''add'', args = [''$t2'', ''$t1'', ''$zero''], comment = None,
                    original_text = None\<rparr>]
   = Inr [Instr \<lparr>opcode = ''move'', args = [''$t2'', ''$t0''],
                 comment = Some ''Optimized from: None and None'', original_text = None\<rparr>]"
  using redundant_move_into_add_zero [of
      "\<lparr>opcode = ''move'', args = [''$t1'', ''$t0''], comment = None, original_text = None\<rparr>"
      "\<lparr>opcode = ''add'', args = [''$t2'', ''$t1'', ''$zero''], comment = None,
        original_text = None\<rparr>"
      "[]" "[]"]
  by (simp add: py_str_def)

section \<open>The add-zero pattern\<close>

text \<open>
  Claim C5, as stated, fails for an \<open>add ..., $zero\<close> that directly follows a \<open>move\<close> into
  its second operand: the cursor never stands on that \<open>add\<close>, the redundant-move pattern
  consumes it together with the \<open>move\<close>, and the source of the resulting \<open>move\<close> is not
  the second operand of the \<open>add\<close>.
\<close>

theorem add_zero_after_move_counterexample:
  "add_zero_shape \<lparr>opcode = ''add'', args = [''$t2'', ''$t1'', ''$zero''], comment = None,
                   original_text = None\<rparr>
   \<and> optimize [Instr \<lparr>opcode = ''move'', args = [''$t1'', ''$t0''], comment = None,
                        original_text = None\<rparr>,
                 Instr \<lparr>opcode = ''add'', args = [''$t2'', ''$t1'', ''$zero''], comment = None,
                        original_text = None\<rparr>]
       = Inr [Instr \<lparr>opcode = ''move'', args = [''$t2'', ''$t0''],
                     comment = Some ''Optimized from: None and None'', original_text = None\<rparr>]
   \<and> [''$t2'', ''$t0''] \<noteq> [[''$t2'', ''$t1'', ''$zero''] ! 0, [''$t2'', ''$t1'', ''$zero''] ! 1]"
  by (simp add: optimize_Cons try_patterns_Instr_Instr add_zero_shape_def
        redundant_move_move_def py_str_def)

text \<open>
  Claim C5, amended. Every \<open>add\<close> Instruction with exactly three operands, the third being
  \<open>$zero\<close>, that is first in the input or whose predecessor is not a \<open>move\<close> Instruction
  (or is a \<open>move\<close> whose first operand exists and differs from the second operand of the
  \<open>add\<close>), is replaced by the single Instruction \<open>move <arg0>, <arg1>\<close>; what stands
  before and after it is optimized on its own. The witness is the example of the
  specification, \<open>add $t0, $s0, $zero\<close>.
\<close>

theorem add_zero_to_move:
  assumes "opcode a = ''add''" and "length (args a) = 3" and "args a ! 2 = ''$zero''"
    and "pre = [] \<or> (\<forall>m. last pre = Instr m \<and> opcode m = ''move''
                         \<longrightarrow> args m \<noteq> [] \<and> args m ! 0 \<noteq> args a ! 1)"
  shows "optimize (pre @ Instr a # post) =
           appE (optimize pre)
             (appE (Inr [Instr \<lparr>opcode = ''move'', args = [args a ! 0, args a ! 1],
                           comment = Some (''Optimized from: '' @ py_str (original_text a)),
                           original_text = None\<rparr>])
                (optimize post))"
proof -
  have shape: "add_zero_shape a"
    using assms by (simp add: add_zero_shape_def)
  have "pre = [] \<or> no_pair (last pre) (Instr a)"
  proof (cases "pre = []")
    case True
    then show ?thesis by simp
  next
    case False
    with assms(4) have m: "last pre = Instr m \<Longrightarrow> opcode m = ''move''
        \<Longrightarrow> args m \<noteq> [] \<and> args m ! 0 \<noteq> args a ! 1" for m
      by blast
    have "no_pair (last pre) (Instr a)"
    proof (cases "last pre")
      case (Lbl l)
      then show ?thesis by simp
    next
      case (Instr m)
      with m [of m] assms(1) show ?thesis
        by (auto simp: no_pair_def match_redundant_move_Instr match_redundant_load_store_Instr
              simp del: match_redundant_move.simps match_redundant_load_store.simps)
    qed
    then show ?thesis ..
  qed
  then have "optimize (pre @ Instr a # post) = appE (optimize pre) (optimize (Instr a # post))"
    by (rule optimize_split)
  then show ?thesis
    using shape by (simp add: optimize_add_zero add_zero_move_def)
qed

theorem add_zero_to_move_witness:
  "optimize [Instr \<lparr>opcode = ''add'', args = [''$t0'', ''$s0'', ''$zero''], comment = None,
                    original_text = None\<rparr>]
   = Inr [Instr \<lparr>opcode = ''move'', args = [''$t0'', ''$s0''],
                 comment = Some ''Optimized from: None'', original_text = None\<rparr>]
   \<and> optimize [Instr \<lparr>opcode = ''move'', args = [''$t5'', ''$t6''], comment = None,
                    original_text = None\<rparr>,
               Instr \<lparr>opcode = ''add'', args = [''$t0'', ''$s0'', ''$zero''], comment = None,
                    original_text = None\<rparr>]
   = Inr [Instr \<lparr>opcode = ''move'', args = [''$t5'', ''$t6''], comment = None,
                    original_text = None\<rparr>,
          Instr \<lparr>opcode = ''move'', args = [''$t0'', ''$s0''],
                 comment = Some ''Optimized from: None'', original_text = None\<rparr>]"
proof -
  have alone: "optimize [Instr \<lparr>opcode = ''add'', args = [''$t0'', ''$s0'', ''$zero''], comment = None,
                    original_text = None\<rparr>]
   = Inr [Instr \<lparr>opcode = ''move'', args = [''$t0'', ''$s0''],
                 comment = Some ''Optimized from: None'', original_text = None\<rparr>]"
    using add_zero_to_move [of
      "\<lparr>opcode = ''add'', args = [''$t0'', ''$s0'', ''$zero''], comment = None,
                    original_text = None\<rparr>"
      "[]" "[]"]
    by (simp add: py_str_def)
  have kept: "optimize [Instr \<lparr>opcode = ''move'', args = [''$t5'', ''$t6''], comment = None,
                    original_text = None\<rparr>]
   = Inr [Instr \<lparr>opcode = ''move'', args = [''$t5'', ''$t6''], comment = None,
                    original_text = None\<rparr>]"
    by (simp add: optimize_Cons try_patterns_single add_zero_shape_def)
  have "optimize ([Instr \<lparr>opcode = ''move'', args = [''$t5'', ''$t6''], comment = None,
                    original_text = None\<rparr>]
          @ Instr \<lparr>opcode = ''add'', args = [''$t0'', ''$s0'', ''$zero''], comment = None,
                    original_text = None\<rparr> # [])
   = Inr [Instr \<lparr>opcode = ''move'', args = [''$t5'', ''$t6''], comment = None,
                    original_text = None\<rparr>,
          Instr \<lparr>opcode = ''move'', args = [''$t0'', ''$s0''],
                 comment = Some ''Optimized from: None'', original_text = None\<rparr>]"
    using add_zero_to_move [of
      "\<lparr>opcode = ''add'', args = [''$t0'', ''$s0'', ''$zero''], comment = None,
                    original_text = None\<rparr>"
      "[Instr \<lparr>opcode = ''move'', args = [''$t5'', ''$t6''], comment = None,
                    original_text = None\<rparr>]" "[]"] kept
    by (auto simp: py_str_def)
  with alone show ?thesis
    by simp
qed

section \<open>Labels\<close>

text \<open>
  Claim C6. Every matcher returns 0 when the element at the cursor, or the second element
  of a two-element window, is a Label. Hence a Label splits the pass: the input before it
  and the input after it are optimized on their own and the Label is copied between the
  two results, and the Labels of the output are those of the input, unchanged and in the
  same order. The witness is \<open>move $t1, $t0\<close>, Label \<open>L\<close>, \<open>add $t2, $t1, $zero\<close>: the
  pair does not collapse into one \<open>move\<close>.
\<close>

theorem labels_are_boundaries:
  "match_add_zero (Lbl l # rest) = Inr 0
   \<and> match_redundant_move (Lbl l # rest) = Inr 0
   \<and> match_redundant_move (x # Lbl l # rest) = Inr 0
   \<and> match_redundant_load_store (Lbl l # rest) = Inr 0
   \<and> match_redundant_load_store (x # Lbl l # rest) = Inr 0
   \<and> optimize (pre @ Lbl l # post) = appE (optimize pre) (appE (Inr [Lbl l]) (optimize post))
   \<and> (optimize xs = Inr ys \<longrightarrow> filter is_label ys = filter is_label xs)"
proof -
  have "match_redundant_move (x # Lbl l # rest) = Inr 0"
    by (cases x) simp_all
  moreover have "match_redundant_load_store (x # Lbl l # rest) = Inr 0"
    by (cases x) simp_all
  moreover have "optimize (pre @ Lbl l # post)
                   = appE (optimize pre) (appE (Inr [Lbl l]) (optimize post))"
  proof -
    have "optimize (pre @ Lbl l # post) = appE (optimize pre) (optimize (Lbl l # post))"
      by (intro optimize_split) simp
    then show ?thesis
      by (simp add: optimize_Lbl)
  qed
  moreover have "filter is_label ys = filter is_label xs" if "optimize xs = Inr ys"
    using _ that by (rule optimize_filter) simp
  ultimately show ?thesis
    by simp
qed

theorem labels_are_boundaries_witness:
  "optimize [Instr \<lparr>opcode = ''move'', args = [''$t1'', ''$t0''], comment = None,
                    original_text = None\<rparr>,
             Lbl \<lparr>name = ''L'', instruction = None\<rparr>,
             Instr \<lparr>opcode = ''add'', args = [''$t2'', ''$t1'', ''$zero''], comment = None,
                    original_text = None\<rparr>]
   = Inr [Instr \<lparr>opcode = ''move'', args = [''$t1'', ''$t0''], comment = None,
                 original_text = None\<rparr>,
          Lbl \<lparr>name = ''L'', instruction = None\<rparr>,
          Instr \<lparr>opcode = ''move'', args = [''$t2'', ''$t1''],
                 comment = Some ''Optimized from: None'', original_text = None\<rparr>]
   \<and> filter is_label
        [Instr \<lparr>opcode = ''move'', args = [''$t1'', ''$t0''], comment = None,
                original_text = None\<rparr>,
         Lbl \<lparr>name = ''L'', instruction = None\<rparr>,
         Instr \<lparr>opcode = ''move'', args = [''$t2'', ''$t1''],
                comment = Some ''Optimized from: None'', original_text = None\<rparr>]
     = filter is_label
        [Instr \<lparr>opcode = ''move'', args = [''$t1'', ''$t0''], comment = None,
                original_text = None\<rparr>,
         Lbl \<lparr>name = ''L'', instruction = None\<rparr>,
         Instr \<lparr>opcode = ''add'', args = [''$t2'', ''$t1'', ''$zero''], comment = None,
                original_text = None\<rparr>]"
proof -
  have run: "optimize [Instr \<lparr>opcode = ''move'', args = [''$t1'', ''$t0''], comment = None,
                    original_text = None\<rparr>,
             Lbl \<lparr>name = ''L'', instruction = None\<rparr>,
             Instr \<lparr>opcode = ''add'', args = [''$t2'', ''$t1'', ''$zero''], comment = None,
                    original_text = None\<rparr>]
   = Inr [Instr \<lparr>opcode = ''move'', args = [''$t1'', ''$t0''], comment = None,
                 original_text = None\<rparr>,
          Lbl \<lparr>name = ''L'', instruction = None\<rparr>,
          Instr \<lparr>opcode = ''move'', args = [''$t2'', ''$t1''],
                 comment = Some ''Optimized from: None'', original_text = None\<rparr>]"
    by (simp add: optimize_Cons try_patterns_single try_patterns_Lbl add_zero_shape_def
          add_zero_move_def py_str_def)
  from labels_are_boundaries [THEN conjunct2, THEN conjunct2, THEN conjunct2, THEN conjunct2,
      THEN conjunct2, THEN conjunct2, THEN mp, OF run] run
  show ?thesis by (intro conjI)
qed

section \<open>Elements no pattern matches\<close>

text \<open>
  Claim C7. An Instruction that is not an \<open>add\<close> with three operands ending in \<open>$zero\<close>,
  that forms no pair of a two-element pattern with the element before it and none with
  the element after it, is copied to the output as it is (all four fields), at its place:
  the input before it and the input after it are optimized on their own. This covers
  the \<open>add\<close>, \<open>move\<close>, \<open>sw\<close> and \<open>lw\<close> Instructions that no pattern matches where
  they stand. In the terms of the loop, an element at the cursor that no pattern matches
  is copied and the pass goes on behind it. An Instruction whose opcode is none of the
  four is never part of a match, and for every property \<open>P\<close> that holds of no
  Instruction with one of the four opcodes, the elements of the output with \<open>P\<close> are the
  elements of the input with \<open>P\<close>, in the same number and order.
\<close>

theorem unmatched_elements_kept:
  "(\<not> (opcode u = ''add'' \<and> length (args u) = 3 \<and> args u ! 2 = ''$zero'')
       \<and> (before = [] \<or> \<not> window_pair (last before) (Instr u))
       \<and> (behind = [] \<or> \<not> window_pair (Instr u) (hd behind))
      \<longrightarrow> optimize (before @ Instr u # behind)
            = appE (optimize before) (appE (Inr [Instr u]) (optimize behind)))
   \<and> (try_patterns patterns (x # rest) = Inr None
      \<longrightarrow> optimize (x # rest) = appE (Inr [x]) (optimize rest))
   \<and> (opcode i \<notin> {''add'', ''move'', ''sw'', ''lw''}
      \<longrightarrow> optimize (pre @ Instr i # post)
            = appE (optimize pre) (appE (Inr [Instr i]) (optimize post)))
   \<and> ((\<forall>j. P (Instr j) \<longrightarrow> opcode j \<notin> {''add'', ''move'', ''sw'', ''lw''})
       \<and> optimize xs = Inr ys
      \<longrightarrow> filter P ys = filter P xs)"
proof (intro conjI impI)
  assume "\<not> (opcode u = ''add'' \<and> length (args u) = 3 \<and> args u ! 2 = ''$zero'')
       \<and> (before = [] \<or> \<not> window_pair (last before) (Instr u))
       \<and> (behind = [] \<or> \<not> window_pair (Instr u) (hd behind))"
  then show "optimize (before @ Instr u # behind)
            = appE (optimize before) (appE (Inr [Instr u]) (optimize behind))"
    by (intro optimize_unmatched) (simp_all add: add_zero_shape_def)
next
  assume "try_patterns patterns (x # rest) = Inr None"
  then show "optimize (x # rest) = appE (Inr [x]) (optimize rest)"
    by (simp add: optimize_Cons)
next
  assume other: "opcode i \<notin> {''add'', ''move'', ''sw'', ''lw''}"
  then have shape: "\<not> add_zero_shape i"
    by (simp add: add_zero_shape_def)
  with other have "no_pair e (Instr i)" for e
    by (intro no_pair_second) simp_all
  then have "optimize (pre @ Instr i # post) = appE (optimize pre) (optimize (Instr i # post))"
    by (intro optimize_split) simp
  moreover have "try_patterns patterns (Instr i # post) = Inr None"
  proof (cases "\<exists>b r. post = Instr b # r")
    case True
    then show ?thesis
      using other shape by (auto simp: try_patterns_Instr_Instr)
  next
    case False
    then have "post = [] \<or> (\<exists>l r. post = Lbl l # r)"
      by (cases post; cases "hd post") auto
    then show ?thesis
      using shape by (simp add: try_patterns_single)
  qed
  ultimately show "optimize (pre @ Instr i # post)
            = appE (optimize pre) (appE (Inr [Instr i]) (optimize post))"
    by (simp add: optimize_Cons)
next
  assume "(\<forall>j. P (Instr j) \<longrightarrow> opcode j \<notin> {''add'', ''move'', ''sw'', ''lw''})
       \<and> optimize xs = Inr ys"
  then show "filter P ys = filter P xs"
    by (intro optimize_filter [of P xs ys]) auto
qed

theorem unmatched_elements_kept_witness:
  "optimize [Instr \<lparr>opcode = ''sw'', args = [''$t1'', ''0($sp)''], comment = None,
                    original_text = Some ''sw $t1, 0($sp)''\<rparr>,
             Instr \<lparr>opcode = ''lw'', args = [''$t2'', ''4($sp)''], comment = None,
                    original_text = Some ''lw $t2, 4($sp)''\<rparr>,
             Instr \<lparr>opcode = ''add'', args = [''$t3'', ''$t2'', ''$t1''], comment = Some ''sum'',
                    original_text = Some ''add $t3, $t2, $t1 # sum''\<rparr>]
   = Inr [Instr \<lparr>opcode = ''sw'', args = [''$t1'', ''0($sp)''], comment = None,
                    original_text = Some ''sw $t1, 0($sp)''\<rparr>,
          Instr \<lparr>opcode = ''lw'', args = [''$t2'', ''4($sp)''], comment = None,
                    original_text = Some ''lw $t2, 4($sp)''\<rparr>,
          Instr \<lparr>opcode = ''add'', args = [''$t3'', ''$t2'', ''$t1''], comment = Some ''sum'',
                    original_text = Some ''add $t3, $t2, $t1 # sum''\<rparr>]
   \<and> optimize [Instr \<lparr>opcode = ''lw'', args = [''$t0'', ''4($sp)''], comment = Some ''load'',
                    original_text = Some ''lw $t0, 4($sp) # load''\<rparr>,
             Instr \<lparr>opcode = ''add'', args = [''$t1'', ''$t0'', ''$zero''], comment = None,
                    original_text = Some ''add $t1, $t0, $zero''\<rparr>,
             Instr \<lparr>opcode = ''sub'', args = [''$t2'', ''$t1'', ''$t0''], comment = None,
                    original_text = Some ''sub $t2, $t1, $t0''\<rparr>]
   = Inr [Instr \<lparr>opcode = ''lw'', args = [''$t0'', ''4($sp)''], comment = Some ''load'',
                 original_text = Some ''lw $t0, 4($sp) # load''\<rparr>,
          Instr \<lparr>opcode = ''move'', args = [''$t1'', ''$t0''],
                 comment = Some ''Optimized from: add $t1, $t0, $zero'', original_text = None\<rparr>,
          Instr \<lparr>opcode = ''sub'', args = [''$t2'', ''$t1'', ''$t0''], comment = None,
                 original_text = Some ''sub $t2, $t1, $t0''\<rparr>]
   \<and> filter (\<lambda>e. e = Instr \<lparr>opcode = ''sub'', args = [''$t2'', ''$t1'', ''$t0''],
                              comment = None, original_text = Some ''sub $t2, $t1, $t0''\<rparr>)
        [Instr \<lparr>opcode = ''lw'', args = [''$t0'', ''4($sp)''], comment = Some ''load'',
                original_text = Some ''lw $t0, 4($sp) # load''\<rparr>,
         Instr \<lparr>opcode = ''move'', args = [''$t1'', ''$t0''],
                comment = Some ''Optimized from: add $t1, $t0, $zero'', original_text = None\<rparr>,
         Instr \<lparr>opcode = ''sub'', args = [''$t2'', ''$t1'', ''$t0''], comment = None,
                original_text = Some ''sub $t2, $t1, $t0''\<rparr>]
     = filter (\<lambda>e. e = Instr \<lparr>opcode = ''sub'', args = [''$t2'', ''$t1'', ''$t0''],
                                comment = None, original_text = Some ''sub $t2, $t1, $t0''\<rparr>)
        [Instr \<lparr>opcode = ''lw'', args = [''$t0'', ''4($sp)''], comment = Some ''load'',
                original_text = Some ''lw $t0, 4($sp) # load''\<rparr>,
         Instr \<lparr>opcode = ''add'', args = [''$t1'', ''$t0'', ''$zero''], comment = None,
                original_text = Some ''add $t1, $t0, $zero''\<rparr>,
         Instr \<lparr>opcode = ''sub'', args = [''$t2'', ''$t1'', ''$t0''], comment = None,
                original_text = Some ''sub $t2, $t1, $t0''\<rparr>]"
proof -
  let ?s = "\<lparr>opcode = ''sw'', args = [''$t1'', ''0($sp)''], comment = None,
                    original_text = Some ''sw $t1, 0($sp)''\<rparr>"
  let ?l = "\<lparr>opcode = ''lw'', args = [''$t2'', ''4($sp)''], comment = None,
                    original_text = Some ''lw $t2, 4($sp)''\<rparr>"
  let ?a = "\<lparr>opcode = ''add'', args = [''$t3'', ''$t2'', ''$t1''], comment = Some ''sum'',
                    original_text = Some ''add $t3, $t2, $t1 # sum''\<rparr>"
  have "\<not> (opcode ?l = ''add'' \<and> length (args ?l) = 3 \<and> args ?l ! 2 = ''$zero'')
       \<and> ([Instr ?s] = [] \<or> \<not> window_pair (last [Instr ?s]) (Instr ?l))
       \<and> ([Instr ?a] = [] \<or> \<not> window_pair (Instr ?l) (hd [Instr ?a]))"
    by (simp add: window_pair_def add_zero_shape_def)
  from unmatched_elements_kept [THEN conjunct1, THEN mp, OF this]
  have "optimize ([Instr ?s] @ Instr ?l # [Instr ?a])
          = appE (optimize [Instr ?s]) (appE (Inr [Instr ?l]) (optimize [Instr ?a]))" .
  moreover have "optimize [Instr ?s] = Inr [Instr ?s]"
    by (simp add: optimize_Cons try_patterns_single add_zero_shape_def)
  moreover have "optimize [Instr ?a] = Inr [Instr ?a]"
    by (simp add: optimize_Cons try_patterns_single add_zero_shape_def)
  ultimately have keep: "optimize [Instr ?s, Instr ?l, Instr ?a]
                           = Inr [Instr ?s, Instr ?l, Instr ?a]"
    by simp
  let ?lw = "\<lparr>opcode = ''lw'', args = [''$t0'', ''4($sp)''], comment = Some ''load'',
               original_text = Some ''lw $t0, 4($sp) # load''\<rparr>"
  let ?add = "\<lparr>opcode = ''add'', args = [''$t1'', ''$t0'', ''$zero''], comment = None,
               original_text = Some ''add $t1, $t0, $zero''\<rparr>"
  let ?sub = "\<lparr>opcode = ''sub'', args = [''$t2'', ''$t1'', ''$t0''], comment = None,
               original_text = Some ''sub $t2, $t1, $t0''\<rparr>"
  have none: "try_patterns patterns [Instr ?lw, Instr ?add, Instr ?sub] = Inr None"
    by (simp add: try_patterns_Instr_Instr add_zero_shape_def)
  have first: "optimize [Instr ?lw, Instr ?add, Instr ?sub]
                 = appE (Inr [Instr ?lw]) (optimize [Instr ?add, Instr ?sub])"
    using unmatched_elements_kept [THEN conjunct2, THEN conjunct1, THEN mp, OF none] .
  have "opcode ?sub \<notin> {''add'', ''move'', ''sw'', ''lw''}"
    by simp
  from unmatched_elements_kept [THEN conjunct2, THEN conjunct2, THEN conjunct1, THEN mp, OF this,
      of "[Instr ?add]" "[]"]
  have second: "optimize [Instr ?add, Instr ?sub]
                  = appE (optimize [Instr ?add]) (Inr [Instr ?sub])"
    by simp
  have run: "optimize [Instr ?lw, Instr ?add, Instr ?sub]
               = Inr [Instr ?lw,
                      Instr \<lparr>opcode = ''move'', args = [''$t1'', ''$t0''],
                        comment = Some ''Optimized from: add $t1, $t0, $zero'',
                        original_text = None\<rparr>,
                      Instr ?sub]"
    unfolding first second
    by (simp add: optimize_Cons try_patterns_single add_zero_shape_def add_zero_move_def
          py_str_def)
  have "\<forall>j. Instr j = Instr ?sub \<longrightarrow> opcode j \<notin> {''add'', ''move'', ''sw'', ''lw''}"
    by auto
  from keep unmatched_elements_kept [THEN conjunct2, THEN conjunct2, THEN conjunct2, THEN mp,
      of "\<lambda>e. e = Instr ?sub", OF conjI, OF this run] run
  show ?thesis
    by (intro conjI)
qed

section \<open>What the transformers construct\<close>

text \<open>
  Claim C10. Whenever a transformer returns, its window starts with the Instructions it
  was written for, and every Instruction it constructs is a \<open>move\<close> with
  \<open>original_text = None\<close> and a comment that starts with \<open>Optimized from: \<close> and goes on
  with the \<open>original_text\<close> of the matched Instructions, as an f-string prints it (for the
  store-then-load pattern: of the load). Only the store of the store-then-load pattern
  is handed on unchanged, with its \<open>original_text\<close>.
\<close>

theorem transformers_drop_original_text:
  "(transform_add_zero w = Inr out \<longrightarrow>
      (\<exists>i rest. w = Instr i # rest
         \<and> out = [Instr \<lparr>opcode = ''move'', args = [args i ! 0, args i ! 1],
                     comment = Some (''Optimized from: '' @ py_str (original_text i)),
                     original_text = None\<rparr>]))
   \<and> (transform_redundant_move w = Inr out \<longrightarrow>
      (\<exists>i0 i1 rest. w = Instr i0 # Instr i1 # rest
         \<and> out = [Instr \<lparr>opcode = ''move'', args = [args i1 ! 0, args i0 ! 1],
                     comment = Some (''Optimized from: '' @ py_str (original_text i0)
                                     @ '' and '' @ py_str (original_text i1)),
                     original_text = None\<rparr>]))
   \<and> (transform_redundant_load_store w = Inr out \<longrightarrow>
      (\<exists>s l rest. w = Instr s # Instr l # rest
         \<and> out = [Instr s,
                   Instr \<lparr>opcode = ''move'', args = [args l ! 0, args s ! 0],
                     comment = Some (''Optimized from: '' @ py_str (original_text l)),
                     original_text = None\<rparr>]))"
proof (intro conjI impI)
  assume "transform_add_zero w = Inr out"
  then show "\<exists>i rest. w = Instr i # rest
         \<and> out = [Instr \<lparr>opcode = ''move'', args = [args i ! 0, args i ! 1],
                     comment = Some (''Optimized from: '' @ py_str (original_text i)),
                     original_text = None\<rparr>]"
    by (cases w rule: transform_add_zero.cases)
       (auto simp: py_index_def split: if_splits)
next
  assume "transform_redundant_move w = Inr out"
  then show "\<exists>i0 i1 rest. w = Instr i0 # Instr i1 # rest
         \<and> out = [Instr \<lparr>opcode = ''move'', args = [args i1 ! 0, args i0 ! 1],
                     comment = Some (''Optimized from: '' @ py_str (original_text i0)
                                     @ '' and '' @ py_str (original_text i1)),
                     original_text = None\<rparr>]"
    by (cases w rule: transform_redundant_move.cases)
       (auto simp: py_index_def split: if_splits elem.splits)
next
  assume "transform_redundant_load_store w = Inr out"
  then show "\<exists>s l rest. w = Instr s # Instr l # rest
         \<and> out = [Instr s,
                   Instr \<lparr>opcode = ''move'', args = [args l ! 0, args s ! 0],
                     comment = Some (''Optimized from: '' @ py_str (original_text l)),
                     original_text = None\<rparr>]"
    by (cases w rule: transform_redundant_load_store.cases)
       (auto simp: py_index_def split: if_splits elem.splits)
qed


theorem transformers_drop_original_text_witness:
  "transform_add_zero
     [Instr \<lparr>opcode = ''add'', args = [''$t2'', ''$t1'', ''$zero''], comment = None,
          original_text = Some ''add $t2, $t1, $zero''\<rparr>]
   = Inr [Instr \<lparr>opcode = ''move'', args = [''$t2'', ''$t1''],
          comment = Some ''Optimized from: add $t2, $t1, $zero'', original_text = None\<rparr>]
   \<and> (\<exists>i rest. [Instr \<lparr>opcode = ''add'', args = [''$t2'', ''$t1'', ''$zero''], comment = None,
          original_text = Some ''add $t2, $t1, $zero''\<rparr>] = Instr i # rest
         \<and> [Instr \<lparr>opcode = ''move'', args = [''$t2'', ''$t1''],
          comment = Some ''Optimized from: add $t2, $t1, $zero'', original_text = None\<rparr>]
           = [Instr \<lparr>opcode = ''move'', args = [args i ! 0, args i ! 1],
                     comment = Some (''Optimized from: '' @ py_str (original_text i)),
                     original_text = None\<rparr>])
   \<and> transform_redundant_move
     [Instr \<lparr>opcode = ''move'', args = [''$t1'', ''$t0''], comment = None,
          original_text = Some ''move $t1, $t0''\<rparr>,
      Instr \<lparr>opcode = ''add'', args = [''$t2'', ''$t1'', ''$zero''], comment = None,
          original_text = Some ''add $t2, $t1, $zero''\<rparr>]
   = Inr [Instr \<lparr>opcode = ''move'', args = [''$t2'', ''$t0''],
          comment = Some ''Optimized from: move $t1, $t0 and add $t2, $t1, $zero'',
          original_text = None\<rparr>]
   \<and> (\<exists>i0 i1 rest. [Instr \<lparr>opcode = ''move'', args = [''$t1'', ''$t0''], comment = None,
          original_text = Some ''move $t1, $t0''\<rparr>,
      Instr \<lparr>opcode = ''add'', args = [''$t2'', ''$t1'', ''$zero''], comment = None,
          original_text = Some ''add $t2, $t1, $zero''\<rparr>] = Instr i0 # Instr i1 # rest
         \<and> [Instr \<lparr>opcode = ''move'', args = [''$t2'', ''$t0''],
          comment = Some ''Optimized from: move $t1, $t0 and add $t2, $t1, $zero'',
          original_text = None\<rparr>]
           = [Instr \<lparr>opcode = ''move'', args = [args i1 ! 0, args i0 ! 1],
                     comment = Some (''Optimized from: '' @ py_str (original_text i0)
                                     @ '' and '' @ py_str (original_text i1)),
                     original_text = None\<rparr>])
   \<and> transform_redundant_load_store
     [Instr \<lparr>opcode = ''sw'', args = [''$t1'', ''0($sp)''], comment = None,
          original_text = Some ''sw $t1, 0($sp)''\<rparr>,
      Instr \<lparr>opcode = ''lw'', args = [''$t2'', ''0($sp)''], comment = None,
          original_text = Some ''lw $t2, 0($sp)''\<rparr>]
   = Inr [Instr \<lparr>opcode = ''sw'', args = [''$t1'', ''0($sp)''], comment = None,
          original_text = Some ''sw $t1, 0($sp)''\<rparr>,
      Instr \<lparr>opcode = ''move'', args = [''$t2'', ''$t1''],
          comment = Some ''Optimized from: lw $t2, 0($sp)'', original_text = None\<rparr>]
   \<and> (\<exists>s l rest. [Instr \<lparr>opcode = ''sw'', args = [''$t1'', ''0($sp)''], comment = None,
          original_text = Some ''sw $t1, 0($sp)''\<rparr>,
      Instr \<lparr>opcode = ''lw'', args = [''$t2'', ''0($sp)''], comment = None,
          original_text = Some ''lw $t2, 0($sp)''\<rparr>] = Instr s # Instr l # rest
         \<and> [Instr \<lparr>opcode = ''sw'', args = [''$t1'', ''0($sp)''], comment = None,
          original_text = Some ''sw $t1, 0($sp)''\<rparr>,
      Instr \<lparr>opcode = ''move'', args = [''$t2'', ''$t1''],
          comment = Some ''Optimized from: lw $t2, 0($sp)'', original_text = None\<rparr>]
           = [Instr s,
                   Instr \<lparr>opcode = ''move'', args = [args l ! 0, args s ! 0],
                     comment = Some (''Optimized from: '' @ py_str (original_text l)),
                     original_text = None\<rparr>])"
proof -
  have h1: "transform_add_zero
     [Instr \<lparr>opcode = ''add'', args = [''$t2'', ''$t1'', ''$zero''], comment = None,
          original_text = Some ''add $t2, $t1, $zero''\<rparr>]
   = Inr [Instr \<lparr>opcode = ''move'', args = [''$t2'', ''$t1''],
          comment = Some ''Optimized from: add $t2, $t1, $zero'', original_text = None\<rparr>]"
    by (simp add: py_index_def py_str_def)
  have h2: "transform_redundant_move
     [Instr \<lparr>opcode = ''move'', args = [''$t1'', ''$t0''], comment = None,
          original_text = Some ''move $t1, $t0''\<rparr>,
      Instr \<lparr>opcode = ''add'', args = [''$t2'', ''$t1'', ''$zero''], comment = None,
          original_text = Some ''add $t2, $t1, $zero''\<rparr>]
   = Inr [Instr \<lparr>opcode = ''move'', args = [''$t2'', ''$t0''],
          comment = Some ''Optimized from: move $t1, $t0 and add $t2, $t1, $zero'',
          original_text = None\<rparr>]"
    by (simp add: py_index_def py_str_def)
  have h3: "transform_redundant_load_store
     [Instr \<lparr>opcode = ''sw'', args = [''$t1'', ''0($sp)''], comment = None,
          original_text = Some ''sw $t1, 0($sp)''\<rparr>,
      Instr \<lparr>opcode = ''lw'', args = [''$t2'', ''0($sp)''], comment = None,
          original_text = Some ''lw $t2, 0($sp)''\<rparr>]
   = Inr [Instr \<lparr>opcode = ''sw'', args = [''$t1'', ''0($sp)''], comment = None,
          original_text = Some ''sw $t1, 0($sp)''\<rparr>,
      Instr \<lparr>opcode = ''move'', args = [''$t2'', ''$t1''],
          comment = Some ''Optimized from: lw $t2, 0($sp)'', original_text = None\<rparr>]"
    by (simp add: py_index_def py_str_def)
  note c1 = transformers_drop_original_text [THEN conjunct1, THEN mp, OF h1]
  note c2 = transformers_drop_original_text [THEN conjunct2, THEN conjunct1, THEN mp, OF h2]
  note c3 = transformers_drop_original_text [THEN conjunct2, THEN conjunct2, THEN mp, OF h3]
  from h1 c1 h2 c2 h3 c3 show ?thesis
    by (intro conjI)
qed

section \<open>Operands that are missing\<close>

text \<open>
  Claim C1 does not hold of the code. The matcher of the redundant-move pattern checks the
  operand count of the \<open>add\<close> but reads the first operand of the \<open>move\<close> unchecked, and
  the matcher of the store-then-load pattern reads the second operand of both
  Instructions unchecked: on a \<open>move\<close> without operands before an \<open>add ..., $zero\<close>, and
  on an \<open>sw\<close> before an \<open>lw\<close> when either has fewer than two operands, the matcher
  raises IndexError and so does \<open>optimize\<close>. The parser produces such Instructions: the
  two lines \<open>sw\<close> and \<open>lw\<close> parse to Instructions without operands.
\<close>

theorem optimize_raises_on_missing_operands:
  "match_redundant_load_store
     [Instr \<lparr>opcode = ''sw'', args = [], comment = None, original_text = Some ''sw''\<rparr>,
      Instr \<lparr>opcode = ''lw'', args = [], comment = None, original_text = Some ''lw''\<rparr>]
     = Inl IndexError
   \<and> match_redundant_move
     [Instr \<lparr>opcode = ''move'', args = [], comment = None, original_text = None\<rparr>,
      Instr \<lparr>opcode = ''add'', args = [''$t2'', ''$t1'', ''$zero''], comment = None,
             original_text = None\<rparr>]
     = Inl IndexError
   \<and> optimize
     [Instr \<lparr>opcode = ''move'', args = [], comment = None, original_text = None\<rparr>,
      Instr \<lparr>opcode = ''add'', args = [''$t2'', ''$t1'', ''$zero''], comment = None,
             original_text = None\<rparr>]
     = Inl IndexError
   \<and> parse_text (''sw'' @ [CHR 0x0A] @ ''lw'')
     = [Instr \<lparr>opcode = ''sw'', args = [], comment = None, original_text = Some ''sw''\<rparr>,
        Instr \<lparr>opcode = ''lw'', args = [], comment = None, original_text = Some ''lw''\<rparr>]
   \<and> optimize (parse_text (''sw'' @ [CHR 0x0A] @ ''lw'')) = Inl IndexError"
proof -
  have p: "parse_text (''sw'' @ [CHR 0x0A] @ ''lw'')
     = [Instr \<lparr>opcode = ''sw'', args = [], comment = None, original_text = Some ''sw''\<rparr>,
        Instr \<lparr>opcode = ''lw'', args = [], comment = None, original_text = Some ''lw''\<rparr>]"
    by code_simp
  have o: "optimize
     [Instr \<lparr>opcode = ''sw'', args = [], comment = None, original_text = Some ''sw''\<rparr>,
      Instr \<lparr>opcode = ''lw'', args = [], comment = None, original_text = Some ''lw''\<rparr>]
     = Inl IndexError"
    by (simp add: optimize_Cons try_patterns_Instr_Instr add_zero_shape_def)
  have m: "optimize
     [Instr \<lparr>opcode = ''move'', args = [], comment = None, original_text = None\<rparr>,
      Instr \<lparr>opcode = ''add'', args = [''$t2'', ''$t1'', ''$zero''], comment = None,
             original_text = None\<rparr>]
     = Inl IndexError"
    by (simp add: optimize_Cons try_patterns_Instr_Instr add_zero_shape_def)
  show ?thesis
    unfolding p using o m by (simp add: py_index_def)
qed

section \<open>A second pass\<close>

text \<open>
  Claim C2 does not hold of the code: no input exists on which a second pass differs from
  the first. The first statement composes the two passes as Python does (an exception of
  the first pass ends the computation), the second speaks of the passes that return.
\<close>

theorem second_pass_differs_counterexample:
  "\<not> (\<exists>s. (case optimize s of Inl e \<Rightarrow> Inl e | Inr t \<Rightarrow> optimize t) \<noteq> optimize s)
   \<and> \<not> (\<exists>s t. optimize s = Inr t \<and> optimize t \<noteq> Inr t)"
  by (auto split: sum.splits dest: optimize_twice)

text \<open>
  Claim C2, amended. \<open>optimize\<close> makes one pass from left to right and never looks at its
  output again, and with the three registered patterns that is enough: whenever
  \<open>optimize\<close> returns, no pattern matches at any position of its output, and a second pass
  returns the output of the first. The witness is the input the specification proposes, a
  redundant \<open>move\<close> followed by a second \<open>add ..., $zero\<close>.
\<close>

theorem optimize_idempotent:
  "optimize s = Inr t \<Longrightarrow> stable t \<and> optimize t = Inr t"
proof -
  assume "optimize s = Inr t"
  then have "stable t"
    by (rule optimize_stable)
  moreover from this have "optimize t = Inr t"
    by (rule stable_optimize)
  ultimately show ?thesis ..
qed

theorem optimize_idempotent_witness:
  "optimize [Instr \<lparr>opcode = ''move'', args = [''$t1'', ''$t0''], comment = None,
                    original_text = None\<rparr>,
             Instr \<lparr>opcode = ''add'', args = [''$t2'', ''$t1'', ''$zero''], comment = None,
                    original_text = None\<rparr>,
             Instr \<lparr>opcode = ''add'', args = [''$t3'', ''$t2'', ''$zero''], comment = None,
                    original_text = None\<rparr>]
   = Inr [Instr \<lparr>opcode = ''move'', args = [''$t2'', ''$t0''],
                 comment = Some ''Optimized from: None and None'', original_text = None\<rparr>,
          Instr \<lparr>opcode = ''move'', args = [''$t3'', ''$t2''],
                 comment = Some ''Optimized from: None'', original_text = None\<rparr>]
   \<and> optimize [Instr \<lparr>opcode = ''move'', args = [''$t2'', ''$t0''],
                       comment = Some ''Optimized from: None and None'', original_text = None\<rparr>,
                Instr \<lparr>opcode = ''move'', args = [''$t3'', ''$t2''],
                       comment = Some ''Optimized from: None'', original_text = None\<rparr>]
   = Inr [Instr \<lparr>opcode = ''move'', args = [''$t2'', ''$t0''],
                 comment = Some ''Optimized from: None and None'', original_text = None\<rparr>,
          Instr \<lparr>opcode = ''move'', args = [''$t3'', ''$t2''],
                 comment = Some ''Optimized from: None'', original_text = None\<rparr>]"
proof -
  have run: "optimize [Instr \<lparr>opcode = ''move'', args = [''$t1'', ''$t0''], comment = None,
                    original_text = None\<rparr>,
             Instr \<lparr>opcode = ''add'', args = [''$t2'', ''$t1'', ''$zero''], comment = None,
                    original_text = None\<rparr>,
             Instr \<lparr>opcode = ''add'', args = [''$t3'', ''$t2'', ''$zero''], comment = None,
                    original_text = None\<rparr>]
   = Inr [Instr \<lparr>opcode = ''move'', args = [''$t2'', ''$t0''],
                 comment = Some ''Optimized from: None and None'', original_text = None\<rparr>,
          Instr \<lparr>opcode = ''move'', args = [''$t3'', ''$t2''],
                 comment = Some ''Optimized from: None'', original_text = None\<rparr>]"
    by (simp add: optimize_Cons try_patterns_Instr_Instr try_patterns_single add_zero_shape_def
          redundant_move_move_def add_zero_move_def py_str_def)
  from optimize_idempotent [OF run, THEN conjunct2] run show ?thesis
    by (intro conjI)
qed

section \<open>Classification of the lines\<close>

text \<open>
  Claim C8. The IR sequence of a text is the concatenation, in order, of what its lines
  contribute, and a line contributes by its trimmed form: nothing when that is empty;
  nothing when it starts with \<open>#\<close>; when it is an identifier, a colon and a rest, a Label
  of that name, followed, when the rest is not blank and parses as an instruction, by
  that Instruction, which is also the \<open>instruction\<close> field of the Label; otherwise the
  Instruction the line parses to, if any. Hence a text of blank lines and comment lines
  parses to the empty sequence.
\<close>

theorem line_classification:
  "(strip raw = [] \<longrightarrow> line_elems raw = [])
   \<and> (strip raw = CHR ''#'' # r \<longrightarrow> line_elems raw = [])
   \<and> (strip raw = ident @ CHR '':'' # rest \<and> ident \<noteq> [] \<and> is_ident_start (hd ident)
        \<and> (\<forall>c\<in>set ident. is_ident_char c) \<longrightarrow>
      line_elems raw =
        (case (if strip rest = [] then None else parse_instruction (lstrip rest)) of
           None \<Rightarrow> [Lbl \<lparr>name = ident, instruction = None\<rparr>]
         | Some ins \<Rightarrow> [Lbl \<lparr>name = ident, instruction = Some ins\<rparr>, Instr ins]))
   \<and> (strip raw \<noteq> [] \<and> \<not> comment_match (strip raw) \<and> label_match (strip raw) = None \<longrightarrow>
      line_elems raw =
        (case parse_instruction (strip raw) of None \<Rightarrow> [] | Some ins \<Rightarrow> [Instr ins]))
   \<and> instructions (parse_line st raw) = instructions st @ line_elems raw
   \<and> parse_text text = concat (map line_elems (splitlines text))
   \<and> ((\<forall>l\<in>set (splitlines text). strip l = [] \<or> hd (strip l) = CHR ''#'')
       \<longrightarrow> parse_text text = [])"
proof -
  have "line_elems raw =
        (case parse_instruction (strip raw) of None \<Rightarrow> [] | Some ins \<Rightarrow> [Instr ins])"
    if "strip raw \<noteq> []" "\<not> comment_match (strip raw)" "label_match (strip raw) = None"
    using that by (simp add: line_elems_def parse_line_def split: option.splits)
  moreover have "parse_text text = []"
    if all: "\<forall>l\<in>set (splitlines text). strip l = [] \<or> hd (strip l) = CHR ''#''"
  proof -
    have "line_elems l = []" if "l \<in> set (splitlines text)" for l
    proof (cases "strip l")
      case Nil
      then show ?thesis by (rule line_elems_blank)
    next
      case (Cons c cs)
      with all that have "strip l = CHR ''#'' # cs"
        by auto
      then show ?thesis by (rule line_elems_comment)
    qed
    then show ?thesis
      by (simp add: parse_text_concat)
  qed
  ultimately show ?thesis
    using line_elems_blank [of raw] line_elems_comment [of raw r]
      line_elems_label [of raw ident rest] instructions_parse_line [of st raw]
      parse_text_concat [of "text"]
    by blast
qed


theorem line_classification_witness:
  "line_elems ''   '' = []
   \<and> line_elems ''  # note'' = []
   \<and> line_elems ''main: ADD $t0, $s0, $zero''
     = [Lbl \<lparr>name = ''main'', instruction = Some \<lparr>opcode = ''add'', args = [''$t0'', ''$s0'', ''$zero''], comment = None,
            original_text = Some ''ADD $t0, $s0, $zero''\<rparr>\<rparr>,
        Instr \<lparr>opcode = ''add'', args = [''$t0'', ''$s0'', ''$zero''], comment = None,
            original_text = Some ''ADD $t0, $s0, $zero''\<rparr>]
   \<and> line_elems ''done:'' = [Lbl \<lparr>name = ''done'', instruction = None\<rparr>]
   \<and> line_elems '' syscall '' = [Instr \<lparr>opcode = ''syscall'', args = [], comment = None, original_text = Some ''syscall''\<rparr>]
   \<and> parse_text (''# a'' @ [CHR 0x0A] @ ''  '' @ [CHR 0x0A, CHR 0x0A] @ '' # b'') = []"
proof -
  have h1: "strip ''   '' = []"
    by code_simp
  have h2: "strip ''  # note'' = CHR ''#'' # '' note''"
    by code_simp
  have h3: "strip ''main: ADD $t0, $s0, $zero'' = ''main'' @ CHR '':'' # '' ADD $t0, $s0, $zero''
      \<and> ''main'' \<noteq> [] \<and> is_ident_start (hd ''main'') \<and> (\<forall>c\<in>set ''main''. is_ident_char c)"
    by code_simp
  have h3b: "strip ''done:'' = ''done'' @ CHR '':'' # []
      \<and> ''done'' \<noteq> [] \<and> is_ident_start (hd ''done'') \<and> (\<forall>c\<in>set ''done''. is_ident_char c)"
    by code_simp
  have h4: "strip '' syscall '' \<noteq> [] \<and> \<not> comment_match (strip '' syscall '')
      \<and> label_match (strip '' syscall '') = None"
    by code_simp
  have h5: "\<forall>l\<in>set (splitlines (''# a'' @ [CHR 0x0A] @ ''  '' @ [CHR 0x0A, CHR 0x0A] @ '' # b'')).
              strip l = [] \<or> hd (strip l) = CHR ''#''"
    by code_simp
  have e3: "(case (if strip '' ADD $t0, $s0, $zero'' = [] then None
                   else parse_instruction (lstrip '' ADD $t0, $s0, $zero'')) of
               None \<Rightarrow> [Lbl \<lparr>name = ''main'', instruction = None\<rparr>]
             | Some ins \<Rightarrow> [Lbl \<lparr>name = ''main'', instruction = Some ins\<rparr>, Instr ins])
     = [Lbl \<lparr>name = ''main'', instruction = Some \<lparr>opcode = ''add'', args = [''$t0'', ''$s0'', ''$zero''], comment = None,
            original_text = Some ''ADD $t0, $s0, $zero''\<rparr>\<rparr>,
        Instr \<lparr>opcode = ''add'', args = [''$t0'', ''$s0'', ''$zero''], comment = None,
            original_text = Some ''ADD $t0, $s0, $zero''\<rparr>]"
    by code_simp
  have e4: "(case parse_instruction (strip '' syscall '') of
               None \<Rightarrow> [] | Some ins \<Rightarrow> [Instr ins])
     = [Instr \<lparr>opcode = ''syscall'', args = [], comment = None, original_text = Some ''syscall''\<rparr>]"
    by code_simp
  note c = line_classification
  have "line_elems ''   '' = []"
    using c [THEN conjunct1, THEN mp, OF h1] .
  moreover have "line_elems ''  # note'' = []"
    using c [THEN conjunct2, THEN conjunct1, THEN mp, OF h2] .
  moreover have "line_elems ''main: ADD $t0, $s0, $zero''
     = [Lbl \<lparr>name = ''main'', instruction = Some \<lparr>opcode = ''add'', args = [''$t0'', ''$s0'', ''$zero''], comment = None,
            original_text = Some ''ADD $t0, $s0, $zero''\<rparr>\<rparr>,
        Instr \<lparr>opcode = ''add'', args = [''$t0'', ''$s0'', ''$zero''], comment = None,
            original_text = Some ''ADD $t0, $s0, $zero''\<rparr>]"
    using c [THEN conjunct2, THEN conjunct2, THEN conjunct1, THEN mp, OF h3] e3 by simp
  moreover have "line_elems ''done:'' = [Lbl \<lparr>name = ''done'', instruction = None\<rparr>]"
    using c [THEN conjunct2, THEN conjunct2, THEN conjunct1, THEN mp, OF h3b] by simp
  moreover have "line_elems '' syscall '' = [Instr \<lparr>opcode = ''syscall'', args = [], comment = None, original_text = Some ''syscall''\<rparr>]"
    using c [THEN conjunct2, THEN conjunct2, THEN conjunct2, THEN conjunct1, THEN mp, OF h4] e4
    by simp
  moreover have "parse_text (''# a'' @ [CHR 0x0A] @ ''  '' @ [CHR 0x0A, CHR 0x0A] @ '' # b'') = []"
    using c [THEN conjunct2, THEN conjunct2, THEN conjunct2, THEN conjunct2, THEN conjunct2,
        THEN conjunct2, THEN mp, OF h5] .
  ultimately show ?thesis
    by (intro conjI)
qed

section \<open>Instruction lines\<close>

text \<open>
  Claim C9. A line matches the instruction pattern exactly when a letter follows its
  leading whitespace. The opcode stored is the run of letters there, lower-cased; the
  operands are those of the text between the opcode and the first \<open>#\<close> (or the end of
  the line): split strictly on \<open>,\<close> (joining the pieces with \<open>,\<close> gives the text back and
  no piece holds a \<open>,\<close>), each trimmed, the empty ones dropped. A line that is no label
  line and does not match the instruction pattern leaves the parser as it was: no
  element, and no error, as no operation of the parser raises.
\<close>

theorem instruction_line_parsing:
  "(parse_instruction line = None \<longleftrightarrow> takeWhile is_alpha (lstrip line) = [])
   \<and> (parse_instruction line = Some ins \<longrightarrow>
        opcode ins = map lower (takeWhile is_alpha (lstrip line))
        \<and> opcode ins \<noteq> []
        \<and> (\<forall>c\<in>set (opcode ins). is_alpha c \<and> \<not> is_upper c)
        \<and> args ins = spec_operands (takeWhile (\<lambda>c. c \<noteq> CHR ''#'')
                                       (dropWhile is_alpha (lstrip line)))
        \<and> (\<forall>a\<in>set (args ins). a \<noteq> [] \<and> strip a = a \<and> CHR '','' \<notin> set a))
   \<and> join (CHR '','') (split_on (CHR '','') s) = s
   \<and> (\<forall>p\<in>set (split_on (CHR '','') s). CHR '','' \<notin> set p)
   \<and> (parse_instruction (strip raw) = None \<and> label_match (strip raw) = None
        \<longrightarrow> parse_line st raw = st \<and> line_elems raw = [])"
proof -
  have some: "opcode ins = map lower (takeWhile is_alpha (lstrip line))
        \<and> opcode ins \<noteq> []
        \<and> (\<forall>c\<in>set (opcode ins). is_alpha c \<and> \<not> is_upper c)
        \<and> args ins = spec_operands (takeWhile (\<lambda>c. c \<noteq> CHR ''#'')
                                       (dropWhile is_alpha (lstrip line)))
        \<and> (\<forall>a\<in>set (args ins). a \<noteq> [] \<and> strip a = a \<and> CHR '','' \<notin> set a)"
    if p: "parse_instruction line = Some ins"
  proof -
    note facts = parse_instruction_Some [OF p]
    have "is_alpha c \<and> \<not> is_upper c" if "c \<in> set (opcode ins)" for c
    proof -
      from that facts(1) obtain d where "d \<in> set (takeWhile is_alpha (lstrip line))" "c = lower d"
        by auto
      then show ?thesis
        using lower_alpha [of d] by (auto dest: set_takeWhileD)
    qed
    moreover have "a \<noteq> [] \<and> strip a = a \<and> CHR '','' \<notin> set a" if "a \<in> set (args ins)" for a
      using that facts(3) spec_operands_trimmed by simp
    ultimately show ?thesis
      using facts by blast
  qed
  have none: "parse_line st raw = st \<and> line_elems raw = []"
    if "parse_instruction (strip raw) = None" "label_match (strip raw) = None"
    using that by (simp add: parse_line_def line_elems_def Let_def)
  show ?thesis
    using some none parse_instruction_None [of line] join_split_on [of "CHR '',''" s]
      split_on_no_sep [of _ "CHR '',''" s]
    by blast
qed


theorem instruction_line_parsing_witness:
  "parse_instruction ''  ADD $t0, $s0 ,, $zero  # hi''
     = Some \<lparr>opcode = ''add'', args = [''$t0'', ''$s0'', ''$zero''], comment = Some ''hi'',
            original_text = Some ''  ADD $t0, $s0 ,, $zero  # hi''\<rparr>
   \<and> opcode \<lparr>opcode = ''add'', args = [''$t0'', ''$s0'', ''$zero''], comment = Some ''hi'',
            original_text = Some ''  ADD $t0, $s0 ,, $zero  # hi''\<rparr>
     = map lower (takeWhile is_alpha (lstrip ''  ADD $t0, $s0 ,, $zero  # hi''))
   \<and> args \<lparr>opcode = ''add'', args = [''$t0'', ''$s0'', ''$zero''], comment = Some ''hi'',
            original_text = Some ''  ADD $t0, $s0 ,, $zero  # hi''\<rparr>
     = spec_operands (takeWhile (\<lambda>c. c \<noteq> CHR ''#'')
                        (dropWhile is_alpha (lstrip ''  ADD $t0, $s0 ,, $zero  # hi'')))
   \<and> join (CHR '','') (split_on (CHR '','') ''$t0, $s0 ,, $zero'') = ''$t0, $s0 ,, $zero''
   \<and> parse_instruction ''.data'' = None
   \<and> parse_line \<lparr>labels = [], instructions = []\<rparr> '' .data'' = \<lparr>labels = [], instructions = []\<rparr>
   \<and> line_elems '' .data'' = []"
proof -
  note c = instruction_line_parsing
  have h1: "parse_instruction ''  ADD $t0, $s0 ,, $zero  # hi''
     = Some \<lparr>opcode = ''add'', args = [''$t0'', ''$s0'', ''$zero''], comment = Some ''hi'',
            original_text = Some ''  ADD $t0, $s0 ,, $zero  # hi''\<rparr>"
    by code_simp
  have h5: "takeWhile is_alpha (lstrip ''.data'') = []"
    by code_simp
  have h6: "parse_instruction (strip '' .data'') = None \<and> label_match (strip '' .data'') = None"
    by code_simp
  note some = c [THEN conjunct2, THEN conjunct1, THEN mp, OF h1]
  note w2 = some [THEN conjunct1]
  note w3 = some [THEN conjunct2, THEN conjunct2, THEN conjunct2, THEN conjunct1]
  note w4 = c [THEN conjunct2, THEN conjunct2, THEN conjunct1, of "''$t0, $s0 ,, $zero''"]
  note w5 = c [THEN conjunct1, THEN iffD2, OF h5]
  note none = c [THEN conjunct2, THEN conjunct2, THEN conjunct2, THEN conjunct2, THEN mp, OF h6,
      of "\<lparr>labels = [], instructions = []\<rparr>"]
  note w6 = none [THEN conjunct1]
  note w7 = none [THEN conjunct2]
  from h1 w2 w3 w4 w5 w6 w7 show ?thesis
    by (intro conjI)
qed

end
